theory Spec2Isabelle
  imports Main "HOL-Library.Sublist"
begin

section \<open>Text, whitespace and lines\<close>

text \<open>
  The script \<^verbatim>\<open>skills/de-AI-writing/tools/style-lint.ps1\<close> works on .NET strings, which
  are sequences of UTF-16 code units; \<^verbatim>\<open>.Length\<close> counts code units.  A code unit is
  modelled by its number, a string by the list of its code units.  All the phrases of the
  script lie in the Basic Multilingual Plane, one code unit each.
\<close>

type_synonym uchar = nat
type_synonym ustring = "uchar list"

abbreviation LF :: uchar where "LF \<equiv> 0x0A"
abbreviation CR :: uchar where "CR \<equiv> 0x0D"

text \<open>
  \<^verbatim>\<open>String.Trim()\<close> and the regex class \<^verbatim>\<open>\s\<close> use the white-space characters of
  .NET (\<^verbatim>\<open>Char.IsWhiteSpace\<close>): U+0009 to U+000D, U+0085 and the Unicode separators.
\<close>

definition is_white_space :: "uchar \<Rightarrow> bool" where
  "is_white_space c \<longleftrightarrow>
     (9 \<le> c \<and> c \<le> 13) \<or> c = 0x20 \<or> c = 0x85 \<or> c = 0xA0 \<or> c = 0x1680 \<or>
     (0x2000 \<le> c \<and> c \<le> 0x200A) \<or> c = 0x2028 \<or> c = 0x2029 \<or> c = 0x202F \<or>
     c = 0x205F \<or> c = 0x3000"

definition trim :: "ustring \<Rightarrow> ustring" where
  "trim s = rev (dropWhile is_white_space (rev (dropWhile is_white_space s)))"

text \<open>
  \<^verbatim>\<open>Get-Content\<close> without \<^verbatim>\<open>-Raw\<close> and \<^verbatim>\<open>Select-String\<close> read the file line by line:
  a line ends at LF, at CR LF or at a lone CR, and a terminator at the very end of the file
  opens no further line.  \<open>read_lines_from cur s\<close> has read \<open>cur\<close> of the current line.
\<close>

fun read_lines_from :: "ustring \<Rightarrow> ustring \<Rightarrow> ustring list" where
  "read_lines_from cur [] = (if cur = [] then [] else [cur])"
| "read_lines_from cur (c # s) =
     (if c = LF then cur # read_lines_from [] s
      else if c = CR then
        (case s of
           [] \<Rightarrow> [cur]
         | d # s' \<Rightarrow> if d = LF then cur # read_lines_from [] s'
                    else cur # read_lines_from [] s)
      else read_lines_from (cur @ [c]) s)"

definition read_lines :: "ustring \<Rightarrow> ustring list" where
  "read_lines t = read_lines_from [] t"

section \<open>Regular expressions of the script\<close>

text \<open>
  Every pattern of the script is an alternation (\<^verbatim>\<open>|\<close>, the operator of lowest precedence)
  of sequences of literal phrases, \<^verbatim>\<open>\s*\<close> and one character class.  \<open>match_seq\<close> gives the
  length of the match of one sequence at the head of the input, as the backtracking engine
  finds it (\<^verbatim>\<open>\s*\<close> is greedy and gives characters back); \<open>match_at\<close> tries the
  alternatives from left to right.
\<close>

datatype atom = Lit ustring | WsStar | OneOf "uchar list"

type_synonym regex = "atom list list"

fun match_seq :: "atom list \<Rightarrow> ustring \<Rightarrow> nat option" where
  "match_seq [] s = Some 0"
| "match_seq (Lit w # as) s =
     (if prefix w s then map_option (\<lambda>n. length w + n) (match_seq as (drop (length w) s))
      else None)"
| "match_seq (OneOf cs # as) s =
     (case s of
        [] \<Rightarrow> None
      | c # s' \<Rightarrow> if c \<in> set cs then map_option Suc (match_seq as s') else None)"
| "match_seq (WsStar # as) s =
     (case s of
        [] \<Rightarrow> match_seq as []
      | c # s' \<Rightarrow>
          if is_white_space c
          then (case match_seq (WsStar # as) s' of
                  Some n \<Rightarrow> Some (Suc n)
                | None \<Rightarrow> match_seq as s)
          else match_seq as s)"

fun match_at :: "regex \<Rightarrow> ustring \<Rightarrow> nat option" where
  "match_at [] s = None"
| "match_at (a # alts) s =
     (case match_seq a s of Some n \<Rightarrow> Some n | None \<Rightarrow> match_at alts s)"

text \<open>
  \<^verbatim>\<open>[regex]::Matches(text, pattern).Count\<close>: the matches are found from left to right and
  do not overlap; the search goes on behind the end of the last match.  No pattern of the
  script matches the empty string.
\<close>

fun regex_count :: "regex \<Rightarrow> ustring \<Rightarrow> nat" where
  "regex_count r [] = 0"
| "regex_count r (c # s) =
     (case match_at r (c # s) of
        None \<Rightarrow> regex_count r s
      | Some n \<Rightarrow> Suc (regex_count r (drop (n - 1) s)))"

text \<open>
  \<^verbatim>\<open>-match\<close>, \<^verbatim>\<open>-notmatch\<close> and \<^verbatim>\<open>Select-String -Pattern\<close> ask whether the pattern
  matches somewhere in the string.  They ignore case, which changes nothing for patterns
  without cased letters.
\<close>

fun is_match :: "regex \<Rightarrow> ustring \<Rightarrow> bool" where
  "is_match r [] = (match_at r [] \<noteq> None)"
| "is_match r (c # s) = (match_at r (c # s) \<noteq> None \<or> is_match r s)"

text \<open>
  A hit of \<^verbatim>\<open>Select-String\<close> carries \<^verbatim>\<open>LineNumber\<close> (from 1) and \<^verbatim>\<open>Line\<close>.
\<close>

type_synonym hit = "nat \<times> ustring"

definition select_string :: "regex \<Rightarrow> ustring \<Rightarrow> hit list" where
  "select_string r t = filter (\<lambda>h. is_match r (snd h)) (enumerate 1 (read_lines t))"

section \<open>The pattern table\<close>

definition er_shi :: regex where
  "er_shi = [[Lit [0x800C, 0x662F]]]"

definition bu_shi :: regex where
  "bu_shi = [[Lit [0x4E0D, 0x662F]]]"

definition ni_hui :: regex where
  "ni_hui = [[Lit [0x4F60, 0x4F1A]]]"

definition ni :: regex where
  "ni = [[Lit [0x4F60]]]"

definition semicolon :: regex where
  "semicolon = [[Lit [0xFF1B]]]"

abbreviation colonChar :: uchar where "colonChar \<equiv> 0xFF1A"

abbreviation quoteChar :: uchar where "quoteChar \<equiv> 0x201C"

abbreviation exclChar :: uchar where "exclChar \<equiv> 0xFF01"

definition colon :: regex where
  "colon = [[Lit [colonChar]]]"

definition period :: regex where
  "period = [[Lit [0x3002]]]"

definition exclamation :: regex where
  "exclamation = [[Lit [exclChar]]]"

definition dash :: regex where
  "dash = [[Lit [0x2014, 0x2014]]]"

definition roadmark_terms :: regex where
  "roadmark_terms =
     [[Lit [0x66F4, 0x5173, 0x952E]],
      [Lit [0x66F4, 0x8981, 0x547D]],
      [Lit [0x6362, 0x53E5, 0x8BDD, 0x8BF4]],
      [Lit [0x4E8B, 0x5B9E, 0x4E0A]],
      [Lit [0x503C, 0x5F97, 0x6CE8, 0x610F]],
      [Lit [0x603B, 0x4E4B]],
      [Lit [0x4E0E, 0x6B64, 0x540C, 0x65F6]]]"

definition ai_roadmarks_extra :: regex where
  "ai_roadmarks_extra =
     [[Lit [0x4E0D, 0x53EF, 0x5426, 0x8BA4]],
      [Lit [0x6BEB, 0x65E0, 0x7591, 0x95EE]],
      [Lit [0x7EFC, 0x4E0A, 0x6240, 0x8FF0]]]"

definition metaphor_markers :: regex where
  "metaphor_markers =
     [[Lit [0x5982, 0x540C]],
      [Lit [0x4EFF, 0x4F5B]],
      [Lit [0x597D, 0x6BD4]],
      [Lit [0x72B9, 0x5982]]]"

definition double_adj :: regex where
  "double_adj = [[Lit [0x800C, 0x53C8]]]"

text \<open>The ordered table \<^verbatim>\<open>$patterns\<close>, in the order of its declaration.\<close>

definition patterns :: "(string \<times> regex) list" where
  "patterns =
     [(''er_shi'', er_shi),
      (''bu_shi'', bu_shi),
      (''ni_hui'', ni_hui),
      (''ni'', ni),
      (''semicolon'', semicolon),
      (''colon'', colon),
      (''period'', period),
      (''exclamation'', exclamation),
      (''dash'', dash),
      (''roadmark_terms'', roadmark_terms),
      (''ai_roadmarks_extra'', ai_roadmarks_extra),
      (''metaphor_markers'', metaphor_markers),
      (''double_adj'', double_adj)]"

text \<open>The pattern of the two hit-line listings: \<^verbatim>\<open>er_shi|ni_hui\<close>.\<close>

definition hitPattern :: regex where
  "hitPattern = [[Lit [0x800C, 0x662F]], [Lit [0x4F60, 0x4F1A]]]"

text \<open>
  \<^verbatim>\<open>$quoteOnlyPattern\<close> is the string concatenation
  \<^verbatim>\<open>v1|v2|v3|v4|v5|v6|v7\s*C\s*[Q"']\<close> of the seven verbs (U+8BF4; U+95EE; U+7B54;
  U+5199 U+9053; U+6307 U+51FA; U+8868 U+793A; U+5F3A U+8C03), the colon \<open>C\<close> and the
  quote \<open>Q\<close>.  The verbs are not grouped, so the regex is an alternation of seven
  branches: the first six are a bare verb, and only the seventh goes on with the colon
  and the quotation mark.
\<close>

definition quoteOnlyPattern :: regex where
  "quoteOnlyPattern =
     [[Lit [0x8BF4]],
      [Lit [0x95EE]],
      [Lit [0x7B54]],
      [Lit [0x5199, 0x9053]],
      [Lit [0x6307, 0x51FA]],
      [Lit [0x8868, 0x793A]],
      [Lit [0x5F3A, 0x8C03], WsStar, Lit [colonChar], WsStar, OneOf [quoteChar, 0x22, 0x27]]]"

section \<open>Configuration\<close>

record config =
  ColonBudget :: int
  ColonExceptionsQuoteOnly :: bool
  SkipTitleLine :: bool

section \<open>Paragraph analysis\<close>

text \<open>
  \<open>line_breaks s\<close> are the iterations of the greedy \<^verbatim>\<open>(\r?\n)*\<close> at the head of \<open>s\<close>.
  \<open>sep_match\<close> is the match of \<^verbatim>\<open>(\r?\n){2,}\<close> at the head: the value of the capture group
  (its last iteration) and the length of the match.
\<close>

fun line_breaks :: "ustring \<Rightarrow> ustring list" where
  "line_breaks [] = []"
| "line_breaks (c # s) =
     (if c = LF then [LF] # line_breaks s
      else if c = CR then
        (case s of
           [] \<Rightarrow> []
         | d # s' \<Rightarrow> if d = LF then [CR, LF] # line_breaks s' else [])
      else [])"

definition sep_match :: "ustring \<Rightarrow> (ustring \<times> nat) option" where
  "sep_match s =
     (let bs = line_breaks s
      in if 2 \<le> length bs then Some (last bs, length (concat bs)) else None)"

text \<open>
  \<^verbatim>\<open>-split "(\r?\n){2,}"\<close>: the pieces between the matches, and, because the pattern has a
  capture group, the captured text of each match between them.
\<close>

fun regex_split :: "ustring \<Rightarrow> ustring list" where
  "regex_split [] = [[]]"
| "regex_split (c # s) =
     (case sep_match (c # s) of
        Some (cap, n) \<Rightarrow> [] # cap # regex_split (drop (n - 1) s)
      | None \<Rightarrow>
          (case regex_split s of
             [] \<Rightarrow> [[c]]
           | p # ps \<Rightarrow> (c # p) # ps))"

text \<open>
  \<^verbatim>\<open>$_ -match "^\r?\n+$"\<close>: the whole string is an optional CR and then one or more LF
  (\<^verbatim>\<open>$\<close> also matches before a final LF, which gives the same strings).
\<close>

definition only_breaks :: "ustring \<Rightarrow> bool" where
  "only_breaks p \<longleftrightarrow>
     (let q = (case p of [] \<Rightarrow> [] | c # r \<Rightarrow> if c = CR then r else p)
      in q \<noteq> [] \<and> list_all (\<lambda>c. c = LF) q)"

definition paragraphs :: "ustring \<Rightarrow> ustring list" where
  "paragraphs t =
     filter (\<lambda>p. 0 < length (trim p) \<and> \<not> only_breaks p) (regex_split (trim t))"

definition paragraphCount :: "ustring \<Rightarrow> nat" where
  "paragraphCount t = length (paragraphs t)"

definition shortParagraphs :: "ustring \<Rightarrow> ustring list" where
  "shortParagraphs t =
     filter (\<lambda>p. length (trim p) < 100 \<and> 0 < length (trim p)) (paragraphs t)"

definition shortParagraphCount :: "ustring \<Rightarrow> nat" where
  "shortParagraphCount t = length (shortParagraphs t)"

definition totalParaChars :: "ustring \<Rightarrow> nat" where
  "totalParaChars t = foldl (\<lambda>acc p. acc + length (trim p)) 0 (paragraphs t)"

text \<open>
  \<^verbatim>\<open>[math]::Round(a / b)\<close> for integers \<open>a\<close> and \<open>b > 0\<close>: the quotient is rounded to
  the nearest integer, a tie to the even one.  The quotient is taken exactly; the
  double-precision quotient of two string lengths rounds to the same integer.
\<close>

definition math_round :: "nat \<Rightarrow> nat \<Rightarrow> nat" where
  "math_round a b =
     (let q = a div b; r = a mod b
      in if 2 * r < b then q
         else if b < 2 * r then q + 1
         else if even q then q else q + 1)"

definition avgParaLen :: "ustring \<Rightarrow> nat" where
  "avgParaLen t =
     (if 0 < paragraphCount t then math_round (totalParaChars t) (paragraphCount t) else 0)"

text \<open>
  \<^verbatim>\<open>(?m)^##\s\<close>: in multiline mode \<^verbatim>\<open>^\<close> matches at the start of the text and behind
  every LF.  \<open>count_h2 bol s\<close> counts from a position that is at a line start iff \<open>bol\<close>.
\<close>

fun count_h2 :: "bool \<Rightarrow> ustring \<Rightarrow> nat" where
  "count_h2 bol [] = 0"
| "count_h2 bol (c # s) =
     (if bol \<and> c = 0x23 \<and>
         (case s of d # e # _ \<Rightarrow> d = 0x23 \<and> is_white_space e | _ \<Rightarrow> False)
      then 1 else 0) + count_h2 (c = LF) s"

definition headingCount :: "ustring \<Rightarrow> nat" where
  "headingCount t = count_h2 True t"

section \<open>The colon rule\<close>

text \<open>
  \<^verbatim>\<open>$firstLine = $lines[0]\<close>.  \<^verbatim>\<open>$lines\<close> is assigned from a pipeline, so it is an array
  only for two lines or more: for a file of one line it is that string itself, and the index
  0 then selects its first character, not the line.
\<close>

definition firstLine :: "ustring \<Rightarrow> ustring" where
  "firstLine t =
     (case read_lines t of
        [] \<Rightarrow> []
      | [l] \<Rightarrow> take 1 l
      | l # _ \<Rightarrow> l)"

definition firstLineColons :: "ustring \<Rightarrow> nat" where
  "firstLineColons t = regex_count colon (firstLine t)"

definition colonCount :: "config \<Rightarrow> ustring \<Rightarrow> int" where
  "colonCount cfg t =
     (if SkipTitleLine cfg then int (regex_count colon t) - int (firstLineColons t)
      else int (regex_count colon t))"

definition colonHits :: "config \<Rightarrow> ustring \<Rightarrow> hit list" where
  "colonHits cfg t =
     (let hits = select_string colon t
      in if SkipTitleLine cfg \<and> hits \<noteq> [] then filter (\<lambda>h. 1 < fst h) hits else hits)"

definition colonViolations :: "config \<Rightarrow> ustring \<Rightarrow> hit list" where
  "colonViolations cfg t =
     (if ColonExceptionsQuoteOnly cfg \<and> colonHits cfg t \<noteq> []
      then filter (\<lambda>h. \<not> is_match quoteOnlyPattern (snd h)) (colonHits cfg t)
      else [])"

section \<open>Counts of the verdict\<close>

definition erShiCount :: "ustring \<Rightarrow> nat" where
  "erShiCount t = regex_count er_shi t"

definition niHuiCount :: "ustring \<Rightarrow> nat" where
  "niHuiCount t = regex_count ni_hui t"

definition exclCount :: "ustring \<Rightarrow> nat" where
  "exclCount t = regex_count exclamation t"

definition dashCount :: "ustring \<Rightarrow> nat" where
  "dashCount t = regex_count dash t"

definition roadmarkCount :: "ustring \<Rightarrow> nat" where
  "roadmarkCount t = regex_count roadmark_terms t"

definition metaphorCount :: "ustring \<Rightarrow> nat" where
  "metaphorCount t = regex_count metaphor_markers t"

definition doubleAdjCount :: "ustring \<Rightarrow> nat" where
  "doubleAdjCount t = regex_count double_adj t"

section \<open>Output lines and the verdict\<close>

text \<open>
  An output line is the sequence of its pieces: literal text of the script, an
  interpolated number, or interpolated text of the document.
\<close>

datatype piece = S string | N int | T ustring

type_synonym fmt = "piece list"

definition msg_er_shi :: "nat \<Rightarrow> fmt" where
  "msg_er_shi n = [S ''er_shi count '', N (int n), S '' > 1'']"

definition msg_ni_hui :: "nat \<Rightarrow> fmt" where
  "msg_ni_hui n = [S ''ni_hui count '', N (int n), S '' > 0'']"

definition msg_budget :: "int \<Rightarrow> int \<Rightarrow> fmt" where
  "msg_budget n b = [S ''colon count '', N n, S '' exceeds budget '', N b]"

definition msg_colon_usage :: fmt where
  "msg_colon_usage = [S ''non-quote colon usage detected'']"

definition msg_short :: "nat \<Rightarrow> fmt" where
  "msg_short n = [S ''short paragraphs ('', N (int n), S '' >= 4)'']"

definition msg_excl :: "nat \<Rightarrow> fmt" where
  "msg_excl n = [S ''exclamation marks '', N (int n), S '' > 2'']"

definition msg_dash :: "nat \<Rightarrow> fmt" where
  "msg_dash n = [S ''dashes '', N (int n), S '' > 3'']"

definition msg_roadmark :: "nat \<Rightarrow> fmt" where
  "msg_roadmark n = [S ''roadmark terms '', N (int n), S '' > 2'']"

definition passBudget :: "config \<Rightarrow> ustring \<Rightarrow> bool" where
  "passBudget cfg t \<longleftrightarrow> colonCount cfg t \<le> ColonBudget cfg"

definition passColonUsage :: "config \<Rightarrow> ustring \<Rightarrow> bool" where
  "passColonUsage cfg t \<longleftrightarrow>
     \<not> ColonExceptionsQuoteOnly cfg \<or> length (colonViolations cfg t) = 0"

definition issues :: "config \<Rightarrow> ustring \<Rightarrow> fmt list" where
  "issues cfg t =
     (if 1 < erShiCount t then [msg_er_shi (erShiCount t)] else []) @
     (if 0 < niHuiCount t then [msg_ni_hui (niHuiCount t)] else []) @
     (if \<not> passBudget cfg t then [msg_budget (colonCount cfg t) (ColonBudget cfg)] else []) @
     (if \<not> passColonUsage cfg t then [msg_colon_usage] else []) @
     (if 4 \<le> shortParagraphCount t then [msg_short (shortParagraphCount t)] else []) @
     (if 2 < exclCount t then [msg_excl (exclCount t)] else []) @
     (if 3 < dashCount t then [msg_dash (dashCount t)] else []) @
     (if 2 < roadmarkCount t then [msg_roadmark (roadmarkCount t)] else [])"

definition result_block :: "config \<Rightarrow> ustring \<Rightarrow> fmt list" where
  "result_block cfg t =
     (if length (issues cfg t) = 0 then [[S ''  PASS'']]
      else [S ''  FAIL''] # map (\<lambda>issue. [S ''  - ''] @ issue) (issues cfg t))"

section \<open>The report\<close>

definition blank :: fmt where
  "blank = []"

definition none_line :: fmt where
  "none_line = [S ''  none'']"

definition hit_line :: "hit \<Rightarrow> fmt" where
  "hit_line h = [S ''  L'', N (int (fst h)), S '': '', T (trim (snd h))]"

definition header_section :: "ustring \<Rightarrow> config \<Rightarrow> ustring \<Rightarrow> fmt list" where
  "header_section path cfg t =
     [[S ''===== Style Lint Report =====''],
      [S ''File: '', T path],
      [S ''Chars: '', N (int (length t))],
      [S ''Lines: '', N (int (length (read_lines t)))],
      blank,
      [S ''--- Paragraph Analysis ---''],
      [S ''Paragraphs: '', N (int (paragraphCount t))],
      [S ''Avg paragraph length: '', N (int (avgParaLen t)), S '' chars''],
      [S ''Short paragraphs (<100 chars): '', N (int (shortParagraphCount t))],
      [S ''H2 headings (##): '', N (int (headingCount t))],
      [S ''Colon budget: '', N (ColonBudget cfg)],
      blank,
      [S ''--- Pattern Counts ---'']]"

definition pattern_counts :: "ustring \<Rightarrow> fmt list" where
  "pattern_counts t =
     map (\<lambda>entry. [S ''  '', S (fst entry), S '': '', N (int (regex_count (snd entry) t))])
       patterns"

definition hit_section :: "ustring \<Rightarrow> fmt list" where
  "hit_section t =
     [blank, [S ''--- Hit Lines (er_shi|ni_hui) ---'']] @
     (let hits = select_string hitPattern t
      in if hits \<noteq> [] then map hit_line hits else [none_line])"

definition colon_section :: "config \<Rightarrow> ustring \<Rightarrow> fmt list" where
  "colon_section cfg t =
     [blank, [S ''--- Colon Lines ---'']] @
     (if colonHits cfg t \<noteq> [] then map hit_line (colonHits cfg t) else [none_line])"

definition violations_section :: "config \<Rightarrow> ustring \<Rightarrow> fmt list" where
  "violations_section cfg t =
     [blank] @
     (if 0 < length (colonViolations cfg t)
      then [S ''--- Colon Violations (non-quote usage) ---''] #
           map hit_line (colonViolations cfg t)
      else [])"

definition excl_section :: "ustring \<Rightarrow> fmt list" where
  "excl_section t =
     [blank] @
     (let exclHits = select_string exclamation t
      in if exclHits \<noteq> []
         then [S ''--- Exclamation Mark Lines ---''] # map hit_line exclHits
         else [])"

definition dash_section :: "ustring \<Rightarrow> fmt list" where
  "dash_section t =
     [blank] @
     (let dashHits = select_string dash t
      in if 3 < dashCount t
         then [S ''--- Dash Warning (>3 occurrences: '', N (int (dashCount t)), S '') ---''] #
              (if dashHits \<noteq> [] then map hit_line dashHits else [])
         else [])"

definition metaphor_section :: "ustring \<Rightarrow> fmt list" where
  "metaphor_section t =
     [blank,
      [S ''--- Metaphor Markers (rough screen) ---''],
      [S ''  Count: '', N (int (metaphorCount t))]] @
     (if 0 < metaphorCount t then map hit_line (select_string metaphor_markers t) else [])"

definition double_adj_section :: "ustring \<Rightarrow> fmt list" where
  "double_adj_section t =
     [blank] @
     (if 0 < doubleAdjCount t
      then [[S ''--- Double Adjective Warning (A'', T [0x800C, 0x53C8], S ''B) ---''],
            [S ''  Count: '', N (int (doubleAdjCount t))]] @
           map hit_line (select_string double_adj t)
      else [])"

definition result_section :: "config \<Rightarrow> ustring \<Rightarrow> fmt list" where
  "result_section cfg t = [blank, [S ''===== Result ====='']] @ result_block cfg t"

definition report :: "ustring \<Rightarrow> config \<Rightarrow> ustring \<Rightarrow> fmt list" where
  "report path cfg t =
     header_section path cfg t @ pattern_counts t @ hit_section t @ colon_section cfg t @
     violations_section cfg t @ excl_section t @ dash_section t @ metaphor_section t @
     double_adj_section t @ result_section cfg t"

section \<open>The run\<close>

text \<open>
  The file store maps the paths that exist to what lies there: a text file with its text,
  or something that cannot be read as text (a directory, a file without read permission).

  The script tests only whether the path exists (\<^verbatim>\<open>Test-Path\<close>).  On a path that does not
  exist it writes the error and exits with code 1 before it has written any line.  On
  every other path it goes on.  When \<^verbatim>\<open>Get-Content\<close> fails, its error does not end the
  run, and \<^verbatim>\<open>$text\<close> and \<^verbatim>\<open>$lines\<close> stay \<^verbatim>\<open>$null\<close>, which the rest of the script treats
  as it treats the empty text: \<^verbatim>\<open>.Count\<close> and \<^verbatim>\<open>.Length\<close> of \<^verbatim>\<open>$null\<close> are 0, a
  \<^verbatim>\<open>$null\<close> argument of \<^verbatim>\<open>[regex]::Matches\<close> is the empty string, the failing call of
  \<^verbatim>\<open>Trim\<close> leaves \<^verbatim>\<open>$paragraphs\<close> unset, and \<^verbatim>\<open>Select-String\<close> has no hit.  So the report
  of the empty text is written, and the run ends with code 0 like every run that reaches
  the result block.  \<open>Inl\<close> is the run that was aborted, \<open>Inr\<close> the output of a run that
  went on; the error records that such a run writes besides its output are left out.
\<close>

datatype error = FileNotFound ustring

datatype node = TextFile ustring | Unreadable

type_synonym file_store = "ustring \<rightharpoonup> node"

definition error_message :: "error \<Rightarrow> fmt" where
  "error_message e = (case e of FileNotFound path \<Rightarrow> [S ''File not found: '', T path])"

definition get_content :: "node \<Rightarrow> ustring" where
  "get_content n = (case n of TextFile t \<Rightarrow> t | Unreadable \<Rightarrow> [])"

definition run :: "file_store \<Rightarrow> ustring \<Rightarrow> config \<Rightarrow> error + fmt list" where
  "run fs path cfg =
     (case fs path of
        None \<Rightarrow> Inl (FileNotFound path)
      | Some n \<Rightarrow> Inr (report path cfg (get_content n)))"

definition exit_code :: "error + fmt list \<Rightarrow> int" where
  "exit_code r = (case r of Inl e \<Rightarrow> 1 | Inr rep \<Rightarrow> 0)"

text \<open>What a reader of the output sees of a section: a line that starts with its title.\<close>

definition rendered :: "string \<Rightarrow> fmt list \<Rightarrow> bool" where
  "rendered title rep = list_ex (\<lambda>l. case l of S x # r \<Rightarrow> x = title | _ \<Rightarrow> False) rep"

text \<open>The line that follows the first line equal to \<open>h\<close>.\<close>

fun line_after :: "fmt \<Rightarrow> fmt list \<Rightarrow> fmt option" where
  "line_after h [] = None"
| "line_after h [x] = None"
| "line_after h (x # y # r) = (if x = h then Some y else line_after h (y # r))"

section \<open>The stated shapes\<close>

text \<open>
  The exemption as the specification words it: one of the seven speech verbs, optional
  white space, the colon, optional white space, an opening quotation mark.  Every verb
  carries the whole tail.
\<close>

definition speechVerbs :: "ustring list" where
  "speechVerbs =
     [[0x8BF4], [0x95EE], [0x7B54], [0x5199, 0x9053], [0x6307, 0x51FA], [0x8868, 0x793A],
      [0x5F3A, 0x8C03]]"

definition quoteShape :: regex where
  "quoteShape =
     map (\<lambda>v. [Lit v, WsStar, Lit [colonChar], WsStar, OneOf [quoteChar, 0x22, 0x27]])
       speechVerbs"

section \<open>Paragraphs as the specification words them\<close>

text \<open>
  The text is cut wherever two or more line breaks follow one another (a line break is LF,
  with or without a CR before it); each piece is trimmed, and the pieces that are empty
  after trimming are dropped.  Nothing of the breaks is kept and the text is not trimmed
  beforehand.
\<close>

fun plain_split :: "ustring \<Rightarrow> ustring list" where
  "plain_split [] = [[]]"
| "plain_split (c # s) =
     (case sep_match (c # s) of
        Some (cap, n) \<Rightarrow> [] # plain_split (drop (n - 1) s)
      | None \<Rightarrow>
          (case plain_split s of
             [] \<Rightarrow> [[c]]
           | p # ps \<Rightarrow> (c # p) # ps))"

definition spec_paragraphs :: "ustring \<Rightarrow> ustring list" where
  "spec_paragraphs t = filter (\<lambda>p. p \<noteq> []) (map trim (plain_split t))"

text \<open>The paragraphs joined by a line break sequence \<open>br\<close>.\<close>

fun join_with :: "ustring \<Rightarrow> ustring list \<Rightarrow> ustring" where
  "join_with br [] = []"
| "join_with br [p] = p"
| "join_with br (p # q # ps) = p @ br @ join_with br (q # ps)"

text \<open>
  Auxiliary notions for the proofs.  \<open>drop_captures\<close> keeps the pieces of a split and
  leaves out the captured text between them; \<open>captures_are_breaks\<close> says that each
  captured text is one line break.  \<open>glue\<close> joins the splits of two adjacent texts when
  no match lies across the seam.  A text is \<open>sep_free\<close> when no match of the separator
  starts in it.
\<close>

fun drop_captures :: "ustring list \<Rightarrow> ustring list" where
  "drop_captures [] = []"
| "drop_captures [x] = [x]"
| "drop_captures (x # c # r) = x # drop_captures r"

fun captures_are_breaks :: "ustring list \<Rightarrow> bool" where
  "captures_are_breaks [] = True"
| "captures_are_breaks [x] = True"
| "captures_are_breaks (x # c # r) = ((c = [LF] \<or> c = [CR, LF]) \<and> captures_are_breaks r)"

fun glue :: "ustring list \<Rightarrow> ustring list \<Rightarrow> ustring list" where
  "glue [] ys = ys"
| "glue [x] [] = [x]"
| "glue [x] (y # ys) = (x @ y) # ys"
| "glue (x # x' # xs) ys = x # glue (x' # xs) ys"

definition sep_free :: "ustring \<Rightarrow> bool" where
  "sep_free s \<longleftrightarrow> (\<forall>q. suffix q s \<longrightarrow> sep_match q = None)"

text \<open>
  The seam between two adjacent texts is clean when the second starts with a character
  that is no line break character, or the first ends with one.
\<close>

definition clean_seam :: "ustring \<Rightarrow> ustring \<Rightarrow> bool" where
  "clean_seam s u \<longleftrightarrow>
     (u \<noteq> [] \<and> hd u \<noteq> LF \<and> hd u \<noteq> CR) \<or> (s \<noteq> [] \<and> last s \<noteq> LF \<and> last s \<noteq> CR)"

section \<open>Example documents\<close>

text \<open>The default configuration of the script, and the same with \<^verbatim>\<open>-SkipTitleLine\<close>.\<close>

definition cfg_default :: config where
  "cfg_default = \<lparr>ColonBudget = 2, ColonExceptionsQuoteOnly = True, SkipTitleLine = False\<rparr>"

definition cfg_skip_title :: config where
  "cfg_skip_title = \<lparr>ColonBudget = 2, ColonExceptionsQuoteOnly = True, SkipTitleLine = True\<rparr>"

definition cfg_no_exceptions :: config where
  "cfg_no_exceptions =
     \<lparr>ColonBudget = 2, ColonExceptionsQuoteOnly = False, SkipTitleLine = False\<rparr>"

text \<open>
  Three lines, each a speech verb (U+8BF4, U+95EE, U+7B54), the colon, and a quoted word
  between U+201C and U+201D.
\<close>

definition doc_three_speeches :: ustring where
  "doc_three_speeches =
     [0x4ED6, 0x8BF4, 0xFF1A, 0x201C, 0x597D, 0x201D, LF,
      0x5979, 0x95EE, 0xFF1A, 0x201C, 0x597D, 0x201D, LF,
      0x6211, 0x7B54, 0xFF1A, 0x201C, 0x597D, 0x201D]"

text \<open>A title line with a colon, then one line of quoted speech.\<close>

definition doc_titled :: ustring where
  "doc_titled =
     [0x9898, 0xFF1A, 0x4E00, LF,
      0x4ED6, 0x8BF4, 0xFF1A, 0x201C, 0x597D, 0x201D]"

text \<open>One line with a colon and no speech verb.\<close>

definition doc_plain_colon :: ustring where
  "doc_plain_colon = [0x7532, 0xFF1A, 0x4E59]"

text \<open>
  Two documents of one short paragraph each.  The second has a heading, and one
  occurrence each of \<open>bu_shi\<close>, \<open>ni\<close>, the semicolon, the period, a phrase of
  \<open>ai_roadmarks_extra\<close>, a metaphor marker and \<open>double_adj\<close>.
\<close>

definition doc_bare :: ustring where
  "doc_bare = [0x7532]"

definition doc_unjudged_marks :: ustring where
  "doc_unjudged_marks =
     [0x23, 0x23, 0x20, 0x4E59, LF,
      0x4E0D, 0x662F, 0x4F60, 0xFF1B, 0x3002,
      0x4E0D, 0x53EF, 0x5426, 0x8BA4, 0x5982, 0x540C, 0x800C, 0x53C8]"


text \<open>A document of white space only: a blank and a line break.\<close>

definition doc_blank :: ustring where
  "doc_blank = [0x20, LF]"

text \<open>Two paragraphs, of one and of two characters.\<close>

definition doc_two_paragraphs :: ustring where
  "doc_two_paragraphs = [0x7532, LF, LF, 0x4E59, 0x4E19]"

text \<open>One line with a single double dash (U+2014 U+2014) and no metaphor marker.\<close>

definition doc_one_dash :: ustring where
  "doc_one_dash = [0x7532, 0x2014, 0x2014, 0x4E59]"

text \<open>
  One line, U+8BF4 U+660E, the colon, U+5982 U+4E0B: the verb U+8BF4 occurs, but not
  before the colon, and there is no quotation mark.
\<close>

definition doc_explanation :: ustring where
  "doc_explanation = [0x8BF4, 0x660E, 0xFF1A, 0x5982, 0x4E0B]"

text \<open>A file store with one text file and one directory, and a path that is not in it.\<close>

definition path_present :: ustring where
  "path_present = [0x61, 0x2E, 0x6D, 0x64]"

definition path_missing :: ustring where
  "path_missing = [0x62, 0x2E, 0x6D, 0x64]"

definition path_directory :: ustring where
  "path_directory = [0x64, 0x6F, 0x63, 0x73]"

definition store_example :: file_store where
  "store_example =
     [path_present \<mapsto> TextFile doc_three_speeches, path_directory \<mapsto> Unreadable]"

text \<open>
  Two paragraphs with blanks around them, separated by CR LF, LF, LF, and a final line
  break.
\<close>

definition doc_padded :: ustring where
  "doc_padded = [0x20, 0x7532, 0x20, CR, LF, LF, LF, 0x20, 0x4E59, LF]"

section \<open>Counting one character\<close>

lemmas msg_defs = msg_er_shi_def msg_ni_hui_def msg_budget_def msg_colon_usage_def
  msg_short_def msg_excl_def msg_dash_def msg_roadmark_def

lemma regex_count_single: "regex_count [[Lit [c]]] s = count_list s c"
  by (induction s) auto

lemma is_match_single: "is_match [[Lit [c]]] s \<longleftrightarrow> c \<in> set s"
  by (induction s) auto

lemma count_read_lines_from:
  "c \<noteq> LF \<Longrightarrow> c \<noteq> CR \<Longrightarrow>
   (\<Sum>l\<leftarrow>read_lines_from cur s. count_list l c) = count_list cur c + count_list s c"
proof (induction cur s rule: read_lines_from.induct)
  case (1 cur)
  then show ?case by simp
next
  case (2 cur d s)
  show ?case
  proof (cases "d = LF")
    case True
    with 2 show ?thesis by simp
  next
    case nlf: False
    show ?thesis
    proof (cases "d = CR")
      case True
      with 2 nlf show ?thesis by (cases s) auto
    next
      case False
      with 2 nlf show ?thesis by simp
    qed
  qed
qed

lemma count_read_lines:
  "c \<noteq> LF \<Longrightarrow> c \<noteq> CR \<Longrightarrow> (\<Sum>l\<leftarrow>read_lines t. count_list l c) = count_list t c"
  by (simp add: read_lines_def count_read_lines_from)

lemma hits_le_count:
  "length (filter (\<lambda>h. c \<in> set (snd h)) (enumerate n ls)) \<le> (\<Sum>l\<leftarrow>ls. count_list l c)"
proof (induction ls arbitrary: n)
  case Nil
  then show ?case by simp
next
  case (Cons l ls)
  have "c \<in> set l \<Longrightarrow> 1 \<le> count_list l c"
    using count_list_0_iff[of l c] by auto
  with Cons[of "Suc n"] show ?case
    by (auto simp: le_Suc_eq)
qed

lemma later_hits:
  "filter (\<lambda>h. n < fst h) (filter P (enumerate (Suc n) ls)) = filter P (enumerate (Suc n) ls)"
  by (rule filter_True) (auto simp: in_set_enumerate_eq)

section \<open>The colon counts\<close>

lemma select_string_colon:
  "select_string colon t = filter (\<lambda>h. colonChar \<in> set (snd h)) (enumerate 1 (read_lines t))"
  by (simp add: select_string_def colon_def is_match_single)

lemma colonCount_no_skip:
  "\<not> SkipTitleLine cfg \<Longrightarrow> colonCount cfg t = int (count_list t colonChar)"
  by (simp add: colonCount_def colon_def regex_count_single)

lemma firstLine_two_lines:
  "2 \<le> length (read_lines t) \<Longrightarrow> firstLine t = hd (read_lines t)"
  by (auto simp: firstLine_def split: list.splits)

lemma colonCount_skip:
  "SkipTitleLine cfg \<Longrightarrow> 2 \<le> length (read_lines t) \<Longrightarrow>
   colonCount cfg t =
     int (count_list t colonChar) - int (count_list (hd (read_lines t)) colonChar)"
  by (simp add: colonCount_def firstLineColons_def firstLine_two_lines colon_def
      regex_count_single)

lemma colonHits_le: "int (length (colonHits cfg t)) \<le> colonCount cfg t"
proof (cases "SkipTitleLine cfg")
  case False
  have "length (select_string colon t) \<le> count_list t colonChar"
    using hits_le_count[of colonChar 1 "read_lines t"]
    by (simp add: select_string_colon count_read_lines)
  with False show ?thesis
    by (simp add: colonHits_def colonCount_def colon_def regex_count_single)
next
  case True
  show ?thesis
  proof (cases "read_lines t")
    case Nil
    with True show ?thesis
      by (simp add: colonHits_def colonCount_def select_string_colon firstLine_def
          firstLineColons_def)
  next
    case (Cons l ls)
    have total:
      "count_list t colonChar = count_list l colonChar + (\<Sum>l\<leftarrow>ls. count_list l colonChar)"
      using count_read_lines[of colonChar t] Cons by simp
    have hits: "colonHits cfg t = filter (\<lambda>h. colonChar \<in> set (snd h)) (enumerate (Suc 1) ls)"
      using True Cons later_hits[of 1 "\<lambda>h. colonChar \<in> set (snd h)" ls]
      by (simp add: colonHits_def select_string_colon Let_def)
    have le: "length (colonHits cfg t) \<le> (\<Sum>l\<leftarrow>ls. count_list l colonChar)"
      unfolding hits by (rule hits_le_count)
    have first: "firstLineColons t \<le> count_list l colonChar"
    proof (cases ls)
      case Nil
      have "count_list (take 1 l) colonChar \<le> count_list l colonChar"
        by (cases l) auto
      with Nil Cons show ?thesis
        by (simp add: firstLineColons_def firstLine_def colon_def regex_count_single)
    next
      case (Cons a list)
      with \<open>read_lines t = l # ls\<close> show ?thesis
        by (simp add: firstLineColons_def firstLine_def colon_def regex_count_single)
    qed
    from True total le first show ?thesis
      by (simp add: colonCount_def colon_def regex_count_single)
  qed
qed

lemma colonViolations_le_hits: "length (colonViolations cfg t) \<le> length (colonHits cfg t)"
  by (simp add: colonViolations_def)

lemma colonCount_le_raw: "colonCount cfg t \<le> int (regex_count colon t)"
  by (simp add: colonCount_def)

section \<open>The examples, evaluated\<close>

lemma lines_three_speeches:
  "read_lines doc_three_speeches =
     [[0x4ED6, 0x8BF4, 0xFF1A, 0x201C, 0x597D, 0x201D],
      [0x5979, 0x95EE, 0xFF1A, 0x201C, 0x597D, 0x201D],
      [0x6211, 0x7B54, 0xFF1A, 0x201C, 0x597D, 0x201D]]"
  by (simp add: read_lines_def doc_three_speeches_def)

lemma violations_three_speeches: "colonViolations cfg_default doc_three_speeches = []"
  by (simp add: colonViolations_def colonHits_def select_string_def lines_three_speeches
      cfg_default_def colon_def quoteOnlyPattern_def)

lemma colonCount_three_speeches: "colonCount cfg_default doc_three_speeches = 3"
  by (simp add: colonCount_def cfg_default_def colon_def doc_three_speeches_def)

lemma lines_titled:
  "read_lines doc_titled =
     [[0x9898, 0xFF1A, 0x4E00], [0x4ED6, 0x8BF4, 0xFF1A, 0x201C, 0x597D, 0x201D]]"
  by (simp add: read_lines_def doc_titled_def)

lemma lines_plain_colon: "read_lines doc_plain_colon = [[0x7532, 0xFF1A, 0x4E59]]"
  by (simp add: read_lines_def doc_plain_colon_def)

lemma hits_plain_colon:
  "colonHits cfg_default doc_plain_colon = [(1, [0x7532, 0xFF1A, 0x4E59])]"
  "colonHits cfg_no_exceptions doc_plain_colon = [(1, [0x7532, 0xFF1A, 0x4E59])]"
  by (simp_all add: colonHits_def select_string_def lines_plain_colon cfg_default_def
      cfg_no_exceptions_def colon_def)

lemma violations_plain_colon:
  "colonViolations cfg_default doc_plain_colon = [(1, [0x7532, 0xFF1A, 0x4E59])]"
  "colonViolations cfg_no_exceptions doc_plain_colon = []"
  by (simp_all add: colonViolations_def hits_plain_colon quoteOnlyPattern_def)
     (simp_all add: cfg_default_def cfg_no_exceptions_def)

lemma colonCount_plain_colon:
  "colonCount cfg_default doc_plain_colon = 1"
  "colonCount cfg_no_exceptions doc_plain_colon = 1"
  by (simp_all add: colonCount_def cfg_default_def cfg_no_exceptions_def colon_def
      doc_plain_colon_def)

text \<open>
  Under \<^verbatim>\<open>-SkipTitleLine\<close> a document of a single line keeps the colons of that line in
  the count, unless the colon is its first character: \<open>firstLine\<close> is then one character.
\<close>

lemma single_line_keeps_colons: "colonCount cfg_skip_title doc_plain_colon = 1"
  by (simp add: colonCount_def firstLineColons_def firstLine_def lines_plain_colon
      cfg_skip_title_def colon_def)
     (simp add: doc_plain_colon_def)

section \<open>Claims about the verdict\<close>



lemma budget_issue_iff:
  "msg_budget (colonCount cfg t) (ColonBudget cfg) \<in> set (issues cfg t) \<longleftrightarrow>
   ColonBudget cfg < colonCount cfg t"
  by (auto simp: issues_def msg_defs passBudget_def)

lemma usage_issue_iff:
  "msg_colon_usage \<in> set (issues cfg t) \<longleftrightarrow>
   ColonExceptionsQuoteOnly cfg \<and> 0 < length (colonViolations cfg t)"
  by (auto simp: issues_def msg_defs passColonUsage_def)

text \<open>
  Claim C1, as the script has it.  The budget is compared with the count of colon
  characters, not with the count of violations: the issue
  \<^verbatim>\<open>colon count n exceeds budget b\<close> is reported iff \<open>colonCount\<close> is above \<open>ColonBudget\<close>,
  where \<open>colonCount\<close> is the number of colons of the text and, under \<^verbatim>\<open>-SkipTitleLine\<close>
  for a document of two lines or more, that number less the colons of line 1.
  Independently, \<^verbatim>\<open>non-quote colon usage detected\<close> is reported iff
  \<open>ColonExceptionsQuoteOnly\<close> is set and there is a colon violation.
\<close>

theorem colon_rule_issues:
  "(msg_budget (colonCount cfg t) (ColonBudget cfg) \<in> set (issues cfg t) \<longleftrightarrow>
      ColonBudget cfg < colonCount cfg t) \<and>
   (msg_colon_usage \<in> set (issues cfg t) \<longleftrightarrow>
      ColonExceptionsQuoteOnly cfg \<and> 0 < length (colonViolations cfg t)) \<and>
   (\<not> SkipTitleLine cfg \<longrightarrow> colonCount cfg t = int (count_list t colonChar)) \<and>
   (SkipTitleLine cfg \<and> 2 \<le> length (read_lines t) \<longrightarrow>
      colonCount cfg t =
        int (count_list t colonChar) - int (count_list (hd (read_lines t)) colonChar))"
  using budget_issue_iff[of cfg t] usage_issue_iff[of cfg t]
    colonCount_no_skip[of cfg t] colonCount_skip[of cfg t]
  by blast

theorem colon_rule_issues_witness:
  "\<not> SkipTitleLine cfg_default \<and>
   colonCount cfg_default doc_three_speeches = 3 \<and>
   SkipTitleLine cfg_skip_title \<and> 2 \<le> length (read_lines doc_titled) \<and>
   colonCount cfg_skip_title doc_titled = 1 \<and>
   msg_budget 1 2 \<notin> set (issues cfg_skip_title doc_titled)"
proof -
  have no_skip: "\<not> SkipTitleLine cfg_default"
    by (simp add: cfg_default_def)
  have skip: "SkipTitleLine cfg_skip_title" and budget: "ColonBudget cfg_skip_title = 2"
    by (simp_all add: cfg_skip_title_def)
  have two: "2 \<le> length (read_lines doc_titled)"
    by (simp add: lines_titled)
  have n3: "count_list doc_three_speeches colonChar = 3"
    by (simp add: doc_three_speeches_def)
  have n2: "count_list doc_titled colonChar = 2"
    by (simp add: doc_titled_def)
  have n1: "count_list (hd (read_lines doc_titled)) colonChar = 1"
    by (simp add: lines_titled)
  have c3: "colonCount cfg_default doc_three_speeches = 3"
    using colon_rule_issues[of cfg_default doc_three_speeches] no_skip n3 by simp
  have c1: "colonCount cfg_skip_title doc_titled = 1"
    using colon_rule_issues[of cfg_skip_title doc_titled] skip two n2 n1 by simp
  have "msg_budget 1 2 \<notin> set (issues cfg_skip_title doc_titled)"
    using colon_rule_issues[of cfg_skip_title doc_titled] c1 budget by simp
  with no_skip skip two c3 c1 show ?thesis by simp
qed

lemma budget_issue_three_speeches:
  "msg_budget 3 2 \<in> set (issues cfg_default doc_three_speeches)"
proof -
  have "ColonBudget cfg_default = 2"
    by (simp add: cfg_default_def)
  then show ?thesis
    using budget_issue_iff[of cfg_default doc_three_speeches]
    by (simp add: colonCount_three_speeches)
qed

text \<open>
  The scenario of claim C1: three colons, each on a line of quoted speech, budget 2.
  There is no violation, and still the budget issue is reported.
\<close>

theorem budget_counts_exempt_colons:
  "ColonExceptionsQuoteOnly cfg_default \<and> ColonBudget cfg_default = 2 \<and>
   count_list doc_three_speeches colonChar = 3 \<and>
   length (colonViolations cfg_default doc_three_speeches) = 0 \<and>
   msg_budget 3 2 \<in> set (issues cfg_default doc_three_speeches)"
proof -
  have cfg: "ColonExceptionsQuoteOnly cfg_default" "ColonBudget cfg_default = 2"
    by (simp_all add: cfg_default_def)
  have n3: "count_list doc_three_speeches colonChar = 3"
    by (simp add: doc_three_speeches_def)
  from cfg n3 budget_issue_three_speeches show ?thesis
    by (simp add: violations_three_speeches)
qed

text \<open>
  Claim C2, as the script has it.  The count of colon violations is at most the count of
  colons that the budget is compared with, which is at most the count of all colons of
  the text; without \<open>ColonExceptionsQuoteOnly\<close> no violation is recorded at all.
\<close>

theorem violations_le_colons:
  "int (length (colonViolations cfg t)) \<le> colonCount cfg t \<and>
   colonCount cfg t \<le> int (regex_count colon t) \<and>
   (\<not> ColonExceptionsQuoteOnly cfg \<longrightarrow> length (colonViolations cfg t) = 0)"
  using colonHits_le[of cfg t] colonViolations_le_hits[of cfg t] colonCount_le_raw[of cfg t]
  by (simp add: colonViolations_def)

theorem violations_le_colons_witness:
  "\<not> ColonExceptionsQuoteOnly cfg_no_exceptions \<and>
   length (colonViolations cfg_no_exceptions doc_plain_colon) = 0 \<and>
   int (length (colonViolations cfg_no_exceptions doc_plain_colon)) \<le>
     colonCount cfg_no_exceptions doc_plain_colon"
proof -
  have off: "\<not> ColonExceptionsQuoteOnly cfg_no_exceptions"
    by (simp add: cfg_no_exceptions_def)
  with violations_le_colons[of cfg_no_exceptions doc_plain_colon] show ?thesis
    by blast
qed

text \<open>
  Against claim C2 as stated: without \<open>ColonExceptionsQuoteOnly\<close> the two counts differ
  on a document with one colon, and with it they agree on the same document.
\<close>

theorem equality_not_tied_to_switch:
  "\<not> ColonExceptionsQuoteOnly cfg_no_exceptions \<and>
   int (length (colonViolations cfg_no_exceptions doc_plain_colon)) \<noteq>
     colonCount cfg_no_exceptions doc_plain_colon \<and>
   ColonExceptionsQuoteOnly cfg_default \<and>
   int (length (colonViolations cfg_default doc_plain_colon)) =
     colonCount cfg_default doc_plain_colon"
proof -
  have "\<not> ColonExceptionsQuoteOnly cfg_no_exceptions" "ColonExceptionsQuoteOnly cfg_default"
    by (simp_all add: cfg_default_def cfg_no_exceptions_def)
  then show ?thesis
    by (simp add: violations_plain_colon colonCount_plain_colon)
qed

text \<open>
  Claim C10.  The verdict is a function of eight counts and two settings: two runs that
  agree on the counts of \<open>er_shi\<close> and \<open>ni_hui\<close>, on the colon count that the budget is
  compared with, on the count of colon violations, on the counts of short paragraphs,
  exclamation marks, double dashes and roadmark terms, and on \<open>ColonBudget\<close> and
  \<open>ColonExceptionsQuoteOnly\<close>, report the same issues and the same result block.  No other
  count of the report takes part.
\<close>

theorem verdict_determined_by_counts:
  assumes "erShiCount t1 = erShiCount t2"
    and "niHuiCount t1 = niHuiCount t2"
    and "colonCount c1 t1 = colonCount c2 t2"
    and "length (colonViolations c1 t1) = length (colonViolations c2 t2)"
    and "shortParagraphCount t1 = shortParagraphCount t2"
    and "exclCount t1 = exclCount t2"
    and "dashCount t1 = dashCount t2"
    and "roadmarkCount t1 = roadmarkCount t2"
    and "ColonBudget c1 = ColonBudget c2"
    and "ColonExceptionsQuoteOnly c1 = ColonExceptionsQuoteOnly c2"
  shows "issues c1 t1 = issues c2 t2 \<and> result_block c1 t1 = result_block c2 t2"
proof -
  have "issues c1 t1 = issues c2 t2"
    using assms by (simp add: issues_def passBudget_def passColonUsage_def)
  then show ?thesis
    by (simp add: result_block_def)
qed

lemmas para_eval = paragraphs_def trim_def is_white_space_def sep_match_def only_breaks_def

lemma counts_bare:
  "erShiCount doc_bare = 0" "niHuiCount doc_bare = 0" "exclCount doc_bare = 0"
  "dashCount doc_bare = 0" "roadmarkCount doc_bare = 0"
  "colonCount cfg_default doc_bare = 0" "colonViolations cfg_default doc_bare = []"
  "colonHits cfg_default doc_bare = []"
  "shortParagraphCount doc_bare = 1"
  by (simp_all add: erShiCount_def er_shi_def niHuiCount_def ni_hui_def exclCount_def
      exclamation_def dashCount_def dash_def roadmarkCount_def roadmark_terms_def
      colonCount_def colonViolations_def colonHits_def select_string_def read_lines_def
      colon_def cfg_default_def shortParagraphCount_def shortParagraphs_def para_eval
      doc_bare_def)

lemma lines_unjudged_marks:
  "read_lines doc_unjudged_marks =
     [[0x23, 0x23, 0x20, 0x4E59],
      [0x4E0D, 0x662F, 0x4F60, 0xFF1B, 0x3002,
       0x4E0D, 0x53EF, 0x5426, 0x8BA4, 0x5982, 0x540C, 0x800C, 0x53C8]]"
  by (simp add: read_lines_def doc_unjudged_marks_def)

lemma counts_unjudged_marks:
  "erShiCount doc_unjudged_marks = 0" "niHuiCount doc_unjudged_marks = 0"
  "exclCount doc_unjudged_marks = 0" "dashCount doc_unjudged_marks = 0"
  "roadmarkCount doc_unjudged_marks = 0"
  "colonCount cfg_skip_title doc_unjudged_marks = 0"
  "colonViolations cfg_skip_title doc_unjudged_marks = []"
  by (simp_all add: erShiCount_def er_shi_def niHuiCount_def ni_hui_def exclCount_def
      exclamation_def dashCount_def dash_def roadmarkCount_def roadmark_terms_def
      colonCount_def firstLineColons_def firstLine_def colonViolations_def colonHits_def
      select_string_def lines_unjudged_marks colon_def cfg_skip_title_def)
     (simp_all add: doc_unjudged_marks_def)

lemma short_unjudged_marks: "shortParagraphCount doc_unjudged_marks = 1"
  by (simp add: shortParagraphCount_def shortParagraphs_def para_eval doc_unjudged_marks_def)

lemma other_counts_differ:
  "regex_count bu_shi doc_bare = 0" "regex_count bu_shi doc_unjudged_marks = 1"
  "regex_count ni doc_bare = 0" "regex_count ni doc_unjudged_marks = 1"
  "regex_count semicolon doc_bare = 0" "regex_count semicolon doc_unjudged_marks = 1"
  "regex_count period doc_bare = 0" "regex_count period doc_unjudged_marks = 1"
  "regex_count ai_roadmarks_extra doc_bare = 0"
  "regex_count ai_roadmarks_extra doc_unjudged_marks = 1"
  "metaphorCount doc_bare = 0" "metaphorCount doc_unjudged_marks = 1"
  "doubleAdjCount doc_bare = 0" "doubleAdjCount doc_unjudged_marks = 1"
  "headingCount doc_bare = 0" "headingCount doc_unjudged_marks = 1"
  by (simp_all add: bu_shi_def ni_def semicolon_def period_def ai_roadmarks_extra_def
      metaphorCount_def metaphor_markers_def doubleAdjCount_def double_adj_def
      headingCount_def is_white_space_def doc_bare_def doc_unjudged_marks_def)

theorem verdict_determined_by_counts_witness:
  "issues cfg_default doc_bare = issues cfg_skip_title doc_unjudged_marks \<and>
   result_block cfg_default doc_bare = result_block cfg_skip_title doc_unjudged_marks \<and>
   regex_count bu_shi doc_bare \<noteq> regex_count bu_shi doc_unjudged_marks \<and>
   regex_count ni doc_bare \<noteq> regex_count ni doc_unjudged_marks \<and>
   regex_count semicolon doc_bare \<noteq> regex_count semicolon doc_unjudged_marks \<and>
   regex_count period doc_bare \<noteq> regex_count period doc_unjudged_marks \<and>
   regex_count ai_roadmarks_extra doc_bare \<noteq>
     regex_count ai_roadmarks_extra doc_unjudged_marks \<and>
   metaphorCount doc_bare \<noteq> metaphorCount doc_unjudged_marks \<and>
   doubleAdjCount doc_bare \<noteq> doubleAdjCount doc_unjudged_marks \<and>
   headingCount doc_bare \<noteq> headingCount doc_unjudged_marks"
proof -
  have cfg: "ColonBudget cfg_default = ColonBudget cfg_skip_title"
    "ColonExceptionsQuoteOnly cfg_default = ColonExceptionsQuoteOnly cfg_skip_title"
    by (simp_all add: cfg_default_def cfg_skip_title_def)
  have "issues cfg_default doc_bare = issues cfg_skip_title doc_unjudged_marks \<and>
      result_block cfg_default doc_bare = result_block cfg_skip_title doc_unjudged_marks"
    by (rule verdict_determined_by_counts)
       (simp_all add: counts_bare counts_unjudged_marks short_unjudged_marks cfg)
  then show ?thesis
    by (simp add: other_counts_differ)
qed

section \<open>Claims about the paragraph statistics\<close>

lemma foldl_add_sum:
  fixes f :: "'a \<Rightarrow> nat"
  shows "foldl (\<lambda>acc p. acc + f p) a xs = a + (\<Sum>p\<leftarrow>xs. f p)"
  by (induction xs arbitrary: a) auto

lemma totalParaChars_sum: "totalParaChars t = (\<Sum>p\<leftarrow>paragraphs t. length (trim p))"
  by (simp add: totalParaChars_def foldl_add_sum)

lemma math_round_nearest:
  assumes "0 < b"
  shows "2 * \<bar>int (math_round a b) * int b - int a\<bar> \<le> int b"
proof -
  define q r where "q = a div b" and "r = a mod b"
  have a: "int a = int q * int b + int r"
    unfolding q_def r_def by (metis div_mult_mod_eq of_nat_add of_nat_mult)
  have r: "r < b"
    unfolding r_def using assms by simp
  consider "2 * r < b" | "b < 2 * r" | "2 * r = b" by linarith
  then show ?thesis
  proof cases
    case 1
    then have "math_round a b = q"
      by (simp add: math_round_def q_def r_def Let_def)
    with a 1 show ?thesis by simp
  next
    case 2
    then have "math_round a b = q + 1"
      by (simp add: math_round_def q_def r_def Let_def)
    with a 2 r show ?thesis by (simp add: algebra_simps)
  next
    case 3
    then have "math_round a b = q \<or> math_round a b = q + 1"
      by (simp add: math_round_def q_def r_def Let_def)
    with a 3 r show ?thesis by (auto simp: algebra_simps)
  qed
qed

lemma math_round_tie: "2 * (a mod b) = b \<Longrightarrow> even (math_round a b)"
  by (simp add: math_round_def Let_def)

text \<open>
  Claim C7.  The average paragraph length is 0 when there is no paragraph.  Otherwise it
  is the quotient of the sum of the trimmed paragraph lengths by the paragraph count,
  rounded to an integer: it differs from the quotient by at most one half, and when the
  quotient lies halfway between two integers it is the even one.
\<close>

theorem avgParaLen_rounded_quotient:
  "(paragraphCount t = 0 \<longrightarrow> avgParaLen t = 0) \<and>
   (0 < paragraphCount t \<longrightarrow>
      2 * \<bar>int (avgParaLen t) * int (paragraphCount t) -
           int (\<Sum>p\<leftarrow>paragraphs t. length (trim p))\<bar> \<le> int (paragraphCount t)) \<and>
   (2 * ((\<Sum>p\<leftarrow>paragraphs t. length (trim p)) mod paragraphCount t) = paragraphCount t \<longrightarrow>
      even (avgParaLen t))"
  using math_round_nearest[of "paragraphCount t" "totalParaChars t"]
    math_round_tie[of "totalParaChars t" "paragraphCount t"]
  by (auto simp: avgParaLen_def totalParaChars_sum)

lemma paragraphs_two: "paragraphs doc_two_paragraphs = [[0x7532], [0x4E59, 0x4E19]]"
  by (simp add: para_eval doc_two_paragraphs_def)

lemma paragraphs_blank: "paragraphs doc_blank = []"
  by (simp add: para_eval doc_blank_def)

theorem avgParaLen_rounded_quotient_witness:
  "paragraphCount doc_blank = 0 \<and> avgParaLen doc_blank = 0 \<and>
   0 < paragraphCount doc_two_paragraphs \<and>
   (\<Sum>p\<leftarrow>paragraphs doc_two_paragraphs. length (trim p)) = 3 \<and>
   avgParaLen doc_two_paragraphs = 2"
proof -
  have none: "paragraphCount doc_blank = 0"
    by (simp add: paragraphCount_def paragraphs_blank)
  have two: "paragraphCount doc_two_paragraphs = 2"
    by (simp add: paragraphCount_def paragraphs_two)
  have total: "(\<Sum>p\<leftarrow>paragraphs doc_two_paragraphs. length (trim p)) = 3"
    by (simp add: paragraphs_two trim_def is_white_space_def)
  have zero: "avgParaLen doc_blank = 0"
    using avgParaLen_rounded_quotient[of doc_blank] none by simp
  have "2 * \<bar>int (avgParaLen doc_two_paragraphs) * 2 - 3\<bar> \<le> 2"
    and "even (avgParaLen doc_two_paragraphs)"
    using avgParaLen_rounded_quotient[of doc_two_paragraphs] two total by simp_all
  then have "avgParaLen doc_two_paragraphs = 2"
    by presburger
  with none zero two total show ?thesis by simp
qed

section \<open>Claims about the report\<close>

lemmas section_defs = header_section_def pattern_counts_def patterns_def hit_section_def
  colon_section_def violations_section_def excl_section_def dash_section_def
  metaphor_section_def double_adj_section_def result_section_def result_block_def
  blank_def none_line_def

lemma rendered_append [simp]: "rendered h (xs @ ys) \<longleftrightarrow> rendered h xs \<or> rendered h ys"
  by (simp add: rendered_def)

lemma rendered_Nil [simp]: "\<not> rendered h []"
  by (simp add: rendered_def)

lemma rendered_Cons [simp]:
  "rendered h (l # ls) \<longleftrightarrow> (case l of S x # r \<Rightarrow> x = h | _ \<Rightarrow> False) \<or> rendered h ls"
  by (simp add: rendered_def)

lemma rendered_hit_lines [simp]: "rendered h (map hit_line hs) \<longleftrightarrow> h = ''  L'' \<and> hs \<noteq> []"
  by (induction hs) (auto simp: hit_line_def)

lemma rendered_bullets [simp]:
  "rendered h (map (\<lambda>issue. [S ''  - ''] @ issue) is) \<longleftrightarrow> h = ''  - '' \<and> is \<noteq> []"
  by (induction "is") auto

lemma rendered_pass: "rendered ''  PASS'' (report path cfg t) \<longleftrightarrow> issues cfg t = []"
  by (simp add: report_def section_defs Let_def)

lemma rendered_fail: "rendered ''  FAIL'' (report path cfg t) \<longleftrightarrow> issues cfg t \<noteq> []"
  by (simp add: report_def section_defs Let_def)

lemma report_lines:
  "report path cfg t =
     [[S ''===== Style Lint Report =====''],
      [S ''File: '', T path],
      [S ''Chars: '', N (int (length t))],
      [S ''Lines: '', N (int (length (read_lines t)))],
      [],
      [S ''--- Paragraph Analysis ---''],
      [S ''Paragraphs: '', N (int (paragraphCount t))],
      [S ''Avg paragraph length: '', N (int (avgParaLen t)), S '' chars''],
      [S ''Short paragraphs (<100 chars): '', N (int (shortParagraphCount t))],
      [S ''H2 headings (##): '', N (int (headingCount t))],
      [S ''Colon budget: '', N (ColonBudget cfg)],
      [],
      [S ''--- Pattern Counts ---''],
      [S ''  '', S ''er_shi'', S '': '', N (int (regex_count er_shi t))],
      [S ''  '', S ''bu_shi'', S '': '', N (int (regex_count bu_shi t))],
      [S ''  '', S ''ni_hui'', S '': '', N (int (regex_count ni_hui t))],
      [S ''  '', S ''ni'', S '': '', N (int (regex_count ni t))],
      [S ''  '', S ''semicolon'', S '': '', N (int (regex_count semicolon t))],
      [S ''  '', S ''colon'', S '': '', N (int (regex_count colon t))],
      [S ''  '', S ''period'', S '': '', N (int (regex_count period t))],
      [S ''  '', S ''exclamation'', S '': '', N (int (regex_count exclamation t))],
      [S ''  '', S ''dash'', S '': '', N (int (regex_count dash t))],
      [S ''  '', S ''roadmark_terms'', S '': '', N (int (regex_count roadmark_terms t))],
      [S ''  '', S ''ai_roadmarks_extra'', S '': '', N (int (regex_count ai_roadmarks_extra t))],
      [S ''  '', S ''metaphor_markers'', S '': '', N (int (regex_count metaphor_markers t))],
      [S ''  '', S ''double_adj'', S '': '', N (int (regex_count double_adj t))],
      [],
      [S ''--- Hit Lines (er_shi|ni_hui) ---'']] @
     (if select_string hitPattern t \<noteq> []
      then map (\<lambda>h. [S ''  L'', N (int (fst h)), S '': '', T (trim (snd h))])
             (select_string hitPattern t)
      else [[S ''  none'']]) @
     [[], [S ''--- Colon Lines ---'']] @
     (if colonHits cfg t \<noteq> []
      then map (\<lambda>h. [S ''  L'', N (int (fst h)), S '': '', T (trim (snd h))]) (colonHits cfg t)
      else [[S ''  none'']]) @
     [[]] @
     (if colonViolations cfg t \<noteq> []
      then [S ''--- Colon Violations (non-quote usage) ---''] #
           map (\<lambda>h. [S ''  L'', N (int (fst h)), S '': '', T (trim (snd h))])
             (colonViolations cfg t)
      else []) @
     [[]] @
     (if select_string exclamation t \<noteq> []
      then [S ''--- Exclamation Mark Lines ---''] #
           map (\<lambda>h. [S ''  L'', N (int (fst h)), S '': '', T (trim (snd h))])
             (select_string exclamation t)
      else []) @
     [[]] @
     (if 3 < dashCount t
      then [S ''--- Dash Warning (>3 occurrences: '', N (int (dashCount t)), S '') ---''] #
           map (\<lambda>h. [S ''  L'', N (int (fst h)), S '': '', T (trim (snd h))])
             (select_string dash t)
      else []) @
     [[],
      [S ''--- Metaphor Markers (rough screen) ---''],
      [S ''  Count: '', N (int (metaphorCount t))]] @
     (if 0 < metaphorCount t
      then map (\<lambda>h. [S ''  L'', N (int (fst h)), S '': '', T (trim (snd h))])
             (select_string metaphor_markers t)
      else []) @
     [[]] @
     (if 0 < doubleAdjCount t
      then [[S ''--- Double Adjective Warning (A'', T [0x800C, 0x53C8], S ''B) ---''],
            [S ''  Count: '', N (int (doubleAdjCount t))]] @
           map (\<lambda>h. [S ''  L'', N (int (fst h)), S '': '', T (trim (snd h))])
             (select_string double_adj t)
      else []) @
     [[], [S ''===== Result ====='']] @
     (if issues cfg t = [] then [[S ''  PASS'']]
      else [S ''  FAIL''] # map (\<lambda>issue. S ''  - '' # issue) (issues cfg t))"
proof -
  have hl: "hit_line = (\<lambda>h. [S ''  L'', N (int (fst h)), S '': '', T (trim (snd h))])"
    by (intro ext) (simp add: hit_line_def)
  show ?thesis
    unfolding report_def section_defs hl Let_def
    by simp
qed

lemma run_missing: "run fs path cfg = Inl (FileNotFound path) \<longleftrightarrow> fs path = None"
  by (simp add: run_def split: option.splits)

lemma run_existing:
  "fs path = Some n \<Longrightarrow> run fs path cfg = Inr (report path cfg (get_content n))"
  by (simp add: run_def)

text \<open>
  Claim C9, as the script has it.  The run is aborted with the error
  \<^verbatim>\<open>File not found\<close> and exit code 1, without a report and without a verdict, exactly
  when the path does not exist.  For a text file the run yields the whole report of its
  text (every line of it is given below) and ends with exit code 0 whether the verdict
  is PASS or FAIL: the verdict is a line of the report, FAIL iff there is an issue.
\<close>

theorem run_aborts_iff_missing:
  "(run fs path cfg = Inl (FileNotFound path) \<longleftrightarrow> fs path = None) \<and>
   (fs path = None \<longrightarrow>
      exit_code (run fs path cfg) = 1 \<and>
      error_message (FileNotFound path) = [S ''File not found: '', T path]) \<and>
   (\<forall>t. fs path = Some (TextFile t) \<longrightarrow>
      exit_code (run fs path cfg) = 0 \<and>
      (rendered ''  PASS'' (report path cfg t) \<longleftrightarrow> issues cfg t = []) \<and>
      (rendered ''  FAIL'' (report path cfg t) \<longleftrightarrow> issues cfg t \<noteq> []) \<and>
      run fs path cfg =
        Inr
         ([[S ''===== Style Lint Report =====''],
           [S ''File: '', T path],
           [S ''Chars: '', N (int (length t))],
           [S ''Lines: '', N (int (length (read_lines t)))],
           [],
           [S ''--- Paragraph Analysis ---''],
           [S ''Paragraphs: '', N (int (paragraphCount t))],
           [S ''Avg paragraph length: '', N (int (avgParaLen t)), S '' chars''],
           [S ''Short paragraphs (<100 chars): '', N (int (shortParagraphCount t))],
           [S ''H2 headings (##): '', N (int (headingCount t))],
           [S ''Colon budget: '', N (ColonBudget cfg)],
           [],
           [S ''--- Pattern Counts ---''],
           [S ''  '', S ''er_shi'', S '': '', N (int (regex_count er_shi t))],
           [S ''  '', S ''bu_shi'', S '': '', N (int (regex_count bu_shi t))],
           [S ''  '', S ''ni_hui'', S '': '', N (int (regex_count ni_hui t))],
           [S ''  '', S ''ni'', S '': '', N (int (regex_count ni t))],
           [S ''  '', S ''semicolon'', S '': '', N (int (regex_count semicolon t))],
           [S ''  '', S ''colon'', S '': '', N (int (regex_count colon t))],
           [S ''  '', S ''period'', S '': '', N (int (regex_count period t))],
           [S ''  '', S ''exclamation'', S '': '', N (int (regex_count exclamation t))],
           [S ''  '', S ''dash'', S '': '', N (int (regex_count dash t))],
           [S ''  '', S ''roadmark_terms'', S '': '', N (int (regex_count roadmark_terms t))],
           [S ''  '', S ''ai_roadmarks_extra'', S '': '',
            N (int (regex_count ai_roadmarks_extra t))],
           [S ''  '', S ''metaphor_markers'', S '': '',
            N (int (regex_count metaphor_markers t))],
           [S ''  '', S ''double_adj'', S '': '', N (int (regex_count double_adj t))],
           [],
           [S ''--- Hit Lines (er_shi|ni_hui) ---'']] @
          (if select_string hitPattern t \<noteq> []
           then map (\<lambda>h. [S ''  L'', N (int (fst h)), S '': '', T (trim (snd h))])
                  (select_string hitPattern t)
           else [[S ''  none'']]) @
          [[], [S ''--- Colon Lines ---'']] @
          (if colonHits cfg t \<noteq> []
           then map (\<lambda>h. [S ''  L'', N (int (fst h)), S '': '', T (trim (snd h))])
                  (colonHits cfg t)
           else [[S ''  none'']]) @
          [[]] @
          (if colonViolations cfg t \<noteq> []
           then [S ''--- Colon Violations (non-quote usage) ---''] #
                map (\<lambda>h. [S ''  L'', N (int (fst h)), S '': '', T (trim (snd h))])
                  (colonViolations cfg t)
           else []) @
          [[]] @
          (if select_string exclamation t \<noteq> []
           then [S ''--- Exclamation Mark Lines ---''] #
                map (\<lambda>h. [S ''  L'', N (int (fst h)), S '': '', T (trim (snd h))])
                  (select_string exclamation t)
           else []) @
          [[]] @
          (if 3 < dashCount t
           then [S ''--- Dash Warning (>3 occurrences: '', N (int (dashCount t)),
                 S '') ---''] #
                map (\<lambda>h. [S ''  L'', N (int (fst h)), S '': '', T (trim (snd h))])
                  (select_string dash t)
           else []) @
          [[],
           [S ''--- Metaphor Markers (rough screen) ---''],
           [S ''  Count: '', N (int (metaphorCount t))]] @
          (if 0 < metaphorCount t
           then map (\<lambda>h. [S ''  L'', N (int (fst h)), S '': '', T (trim (snd h))])
                  (select_string metaphor_markers t)
           else []) @
          [[]] @
          (if 0 < doubleAdjCount t
           then [[S ''--- Double Adjective Warning (A'', T [0x800C, 0x53C8], S ''B) ---''],
                 [S ''  Count: '', N (int (doubleAdjCount t))]] @
                map (\<lambda>h. [S ''  L'', N (int (fst h)), S '': '', T (trim (snd h))])
                  (select_string double_adj t)
           else []) @
          [[], [S ''===== Result ====='']] @
          (if issues cfg t = [] then [[S ''  PASS'']]
           else [S ''  FAIL''] # map (\<lambda>issue. S ''  - '' # issue) (issues cfg t))))"
proof -
  have "run fs path cfg = Inr (report path cfg t) \<and> exit_code (run fs path cfg) = 0"
    if "fs path = Some (TextFile t)" for t
    using that run_existing[of fs path "TextFile t" cfg]
    by (simp add: exit_code_def get_content_def)
  moreover have "exit_code (run fs path cfg) = 1" if "fs path = None"
    using that by (simp add: run_def exit_code_def)
  moreover have "error_message (FileNotFound path) = [S ''File not found: '', T path]"
    by (simp add: error_message_def)
  ultimately show ?thesis
    unfolding report_lines[symmetric]
    using run_missing[of fs path cfg] rendered_pass[of path cfg] rendered_fail[of path cfg]
    by blast
qed

lemma store_example_paths:
  "store_example path_missing = None"
  "store_example path_present = Some (TextFile doc_three_speeches)"
  "store_example path_directory = Some Unreadable"
  by (simp_all add: store_example_def path_missing_def path_present_def path_directory_def)

theorem run_aborts_iff_missing_witness:
  "store_example path_missing = None \<and>
   run store_example path_missing cfg_default = Inl (FileNotFound path_missing) \<and>
   exit_code (run store_example path_missing cfg_default) = 1 \<and>
   store_example path_present = Some (TextFile doc_three_speeches) \<and>
   exit_code (run store_example path_present cfg_default) = 0 \<and>
   rendered ''  FAIL'' (report path_present cfg_default doc_three_speeches)"
proof -
  have fails: "issues cfg_default doc_three_speeches \<noteq> []"
    using budget_issue_three_speeches by auto
  from run_aborts_iff_missing[of store_example path_missing cfg_default]
    run_aborts_iff_missing[of store_example path_present cfg_default]
    store_example_paths fails
  show ?thesis by blast
qed

lemma issues_empty_text: "issues cfg_default [] = []"
  by (simp add: issues_def passBudget_def passColonUsage_def colonCount_def
      colonViolations_def colonHits_def select_string_def read_lines_def erShiCount_def
      niHuiCount_def exclCount_def dashCount_def roadmarkCount_def shortParagraphCount_def
      shortParagraphs_def para_eval cfg_default_def)

text \<open>
  Against claim C9 as stated: a path that exists and is no readable text, a directory,
  passes the test of the script.  The run is not aborted: it writes the report of the
  empty text with the verdict PASS and ends with exit code 0.
\<close>

theorem unreadable_path_gets_report:
  "store_example path_directory = Some Unreadable \<and>
   run store_example path_directory cfg_default \<noteq> Inl (FileNotFound path_directory) \<and>
   run store_example path_directory cfg_default = Inr (report path_directory cfg_default []) \<and>
   rendered ''  PASS'' (report path_directory cfg_default []) \<and>
   exit_code (run store_example path_directory cfg_default) = 0"
proof -
  have r: "run store_example path_directory cfg_default =
      Inr (report path_directory cfg_default [])"
    using store_example_paths(3) run_existing[of store_example path_directory Unreadable cfg_default]
    by (simp add: get_content_def)
  have "rendered ''  PASS'' (report path_directory cfg_default [])"
    using rendered_pass[of path_directory cfg_default "[]"] issues_empty_text by simp
  with r store_example_paths(3) show ?thesis
    by (simp add: exit_code_def)
qed

lemma not_rendered_not_member: "\<not> rendered title xs \<Longrightarrow> [S title] \<notin> set xs"
  by (induction xs) auto

lemma line_after_skip: "h \<notin> set xs \<Longrightarrow> line_after h (xs @ ys) = line_after h ys"
proof (induction xs)
  case Nil
  then show ?case by simp
next
  case (Cons x xs)
  then show ?case by (cases "xs @ ys") auto
qed

lemma line_after_hit_title:
  "line_after [S ''--- Hit Lines (er_shi|ni_hui) ---''] (report path cfg t) =
     Some (case select_string hitPattern t of [] \<Rightarrow> none_line | h # hs \<Rightarrow> hit_line h)"
proof -
  let ?h = "[S ''--- Hit Lines (er_shi|ni_hui) ---'']"
  let ?pre = "header_section path cfg t @ pattern_counts t @ [blank]"
  have "\<not> rendered ''--- Hit Lines (er_shi|ni_hui) ---'' ?pre"
    by (simp add: section_defs)
  then have pre: "?h \<notin> set ?pre"
    by (rule not_rendered_not_member)
  obtain rest where rep: "report path cfg t = ?pre @ ?h #
      (case select_string hitPattern t of
         [] \<Rightarrow> [none_line]
       | h # hs \<Rightarrow> hit_line h # map hit_line hs) @ rest"
    by (simp add: report_def hit_section_def Let_def split: list.splits)
  show ?thesis
    unfolding rep using line_after_skip[OF pre]
    by (simp split: list.splits)
qed

lemma line_after_colon_title:
  "line_after [S ''--- Colon Lines ---''] (report path cfg t) =
     Some (case colonHits cfg t of [] \<Rightarrow> none_line | h # hs \<Rightarrow> hit_line h)"
proof -
  let ?h = "[S ''--- Colon Lines ---'']"
  let ?pre = "header_section path cfg t @ pattern_counts t @ hit_section t @ [blank]"
  have "\<not> rendered ''--- Colon Lines ---'' ?pre"
    by (simp add: section_defs Let_def)
  then have pre: "?h \<notin> set ?pre"
    by (rule not_rendered_not_member)
  obtain rest where rep: "report path cfg t = ?pre @ ?h #
      (case colonHits cfg t of
         [] \<Rightarrow> [none_line]
       | h # hs \<Rightarrow> hit_line h # map hit_line hs) @ rest"
    by (simp add: report_def colon_section_def split: list.splits)
  show ?thesis
    unfolding rep using line_after_skip[OF pre]
    by (simp split: list.splits)
qed

lemma line_after_metaphor_title:
  "line_after [S ''--- Metaphor Markers (rough screen) ---''] (report path cfg t) =
     Some [S ''  Count: '', N (int (metaphorCount t))]"
proof -
  let ?h = "[S ''--- Metaphor Markers (rough screen) ---'']"
  let ?pre = "header_section path cfg t @ pattern_counts t @ hit_section t @
     colon_section cfg t @ violations_section cfg t @ excl_section t @ dash_section t @ [blank]"
  have "\<not> rendered ''--- Metaphor Markers (rough screen) ---'' ?pre"
    by (simp add: section_defs Let_def)
  then have pre: "?h \<notin> set ?pre"
    by (rule not_rendered_not_member)
  obtain rest where rep: "report path cfg t = ?pre @ ?h #
      [S ''  Count: '', N (int (metaphorCount t))] # rest"
    by (simp add: report_def metaphor_section_def)
  show ?thesis
    unfolding rep using line_after_skip[OF pre]
    by simp
qed

lemma sum_count_pos: "0 < (\<Sum>l\<leftarrow>ls. count_list l c) \<longleftrightarrow> (\<exists>l\<in>set ls. c \<in> set l)"
  by (induction ls) (auto simp: count_list_0_iff)

lemma select_string_single_nonempty:
  assumes "c \<noteq> LF" "c \<noteq> CR"
  shows "select_string [[Lit [c]]] t \<noteq> [] \<longleftrightarrow> 0 < regex_count [[Lit [c]]] t"
proof -
  have "select_string [[Lit [c]]] t \<noteq> [] \<longleftrightarrow>
      (\<exists>l\<in>set (map snd (enumerate 1 (read_lines t))). c \<in> set l)"
    by (auto simp: select_string_def is_match_single filter_empty_conv
        simp del: map_snd_enumerate)
  also have "\<dots> \<longleftrightarrow> 0 < (\<Sum>l\<leftarrow>read_lines t. count_list l c)"
    by (simp add: sum_count_pos)
  finally show ?thesis
    using assms by (simp add: count_read_lines regex_count_single)
qed

lemma hit_line_not_none: "hit_line h \<noteq> none_line"
  by (simp add: hit_line_def none_line_def)

lemma rendered_always:
  "rendered ''--- Hit Lines (er_shi|ni_hui) ---'' (report path cfg t)"
  "rendered ''--- Colon Lines ---'' (report path cfg t)"
  "rendered ''--- Metaphor Markers (rough screen) ---'' (report path cfg t)"
  by (simp_all add: report_def section_defs Let_def)

lemma rendered_excl:
  "rendered ''--- Exclamation Mark Lines ---'' (report path cfg t) \<longleftrightarrow> 0 < exclCount t"
proof -
  have "select_string exclamation t \<noteq> [] \<longleftrightarrow> 0 < exclCount t"
    by (simp add: exclamation_def exclCount_def select_string_single_nonempty)
  then show ?thesis
    by (simp add: report_def section_defs Let_def)
qed

lemma rendered_dash:
  "rendered ''--- Dash Warning (>3 occurrences: '' (report path cfg t) \<longleftrightarrow> 3 < dashCount t"
  by (simp add: report_def section_defs Let_def)

lemma rendered_double_adj:
  "rendered ''--- Double Adjective Warning (A'' (report path cfg t) \<longleftrightarrow> 0 < doubleAdjCount t"
  by (simp add: report_def section_defs Let_def)

text \<open>
  Claim C5, as the script has it.  The sections of the direct-address hits and of the
  colon lines are always rendered, and the line under their title is the placeholder
  \<^verbatim>\<open>none\<close> iff they have no hit.  The section of exclamation marks and that of the
  double adjective are rendered iff their count is not zero.  The dash section is
  rendered iff the count of double dashes is above 3.  The title of the metaphor section
  and, under it, the line of its count are always rendered.
\<close>

theorem section_rendering:
  "rendered ''--- Hit Lines (er_shi|ni_hui) ---'' (report path cfg t) \<and>
   (line_after [S ''--- Hit Lines (er_shi|ni_hui) ---''] (report path cfg t) = Some none_line
      \<longleftrightarrow> select_string hitPattern t = []) \<and>
   rendered ''--- Colon Lines ---'' (report path cfg t) \<and>
   (line_after [S ''--- Colon Lines ---''] (report path cfg t) = Some none_line
      \<longleftrightarrow> colonHits cfg t = []) \<and>
   (rendered ''--- Exclamation Mark Lines ---'' (report path cfg t) \<longleftrightarrow> 0 < exclCount t) \<and>
   (rendered ''--- Dash Warning (>3 occurrences: '' (report path cfg t) \<longleftrightarrow> 3 < dashCount t) \<and>
   rendered ''--- Metaphor Markers (rough screen) ---'' (report path cfg t) \<and>
   line_after [S ''--- Metaphor Markers (rough screen) ---''] (report path cfg t) =
     Some [S ''  Count: '', N (int (metaphorCount t))] \<and>
   (rendered ''--- Double Adjective Warning (A'' (report path cfg t) \<longleftrightarrow> 0 < doubleAdjCount t)"
proof -
  have g: "line_after [S ''--- Hit Lines (er_shi|ni_hui) ---''] (report path cfg t) =
      Some none_line \<longleftrightarrow> select_string hitPattern t = []"
    by (simp add: line_after_hit_title hit_line_not_none split: list.splits)
  have h: "line_after [S ''--- Colon Lines ---''] (report path cfg t) = Some none_line
      \<longleftrightarrow> colonHits cfg t = []"
    by (simp add: line_after_colon_title hit_line_not_none split: list.splits)
  from g h rendered_always[of path cfg t] rendered_excl[of path cfg t]
    rendered_dash[of path cfg t] rendered_double_adj[of path cfg t]
    line_after_metaphor_title[of path cfg t]
  show ?thesis by blast
qed

theorem section_rendering_witness:
  "colonHits cfg_default doc_bare = [] \<and>
   line_after [S ''--- Colon Lines ---''] (report path_present cfg_default doc_bare) =
     Some none_line \<and>
   exclCount doc_bare = 0 \<and>
   \<not> rendered ''--- Exclamation Mark Lines ---'' (report path_present cfg_default doc_bare)"
  using section_rendering[of path_present cfg_default doc_bare]
  by (simp add: counts_bare)

lemma counts_one_dash: "dashCount doc_one_dash = 1" "metaphorCount doc_one_dash = 0"
  by (simp_all add: dashCount_def dash_def metaphorCount_def metaphor_markers_def
      doc_one_dash_def)

text \<open>
  Against claim C5 as stated: a document with one double dash and no metaphor marker has
  no dash section and has the metaphor section.
\<close>

theorem dash_omitted_metaphor_rendered:
  "dashCount doc_one_dash = 1 \<and>
   \<not> rendered ''--- Dash Warning (>3 occurrences: '' (report path_present cfg_default doc_one_dash) \<and>
   metaphorCount doc_one_dash = 0 \<and>
   rendered ''--- Metaphor Markers (rough screen) ---'' (report path_present cfg_default doc_one_dash)"
  using rendered_dash[of path_present cfg_default doc_one_dash]
    rendered_always(3)[of path_present cfg_default doc_one_dash]
  by (simp add: counts_one_dash)

section \<open>The exemption of quoted speech\<close>

lemma match_at_shape:
  "match_at quoteShape s \<noteq> None \<Longrightarrow> match_at quoteOnlyPattern s \<noteq> None"
  by (auto simp: quoteShape_def speechVerbs_def quoteOnlyPattern_def
      split: if_splits option.splits)

lemma shaped_line_exempt: "is_match quoteShape l \<Longrightarrow> is_match quoteOnlyPattern l"
proof (induction l)
  case Nil
  then show ?case using match_at_shape[of "[]"] by simp
next
  case (Cons c l)
  then show ?case using match_at_shape[of "c # l"] by auto
qed

lemma lines_explanation:
  "read_lines doc_explanation = [[0x8BF4, 0x660E, 0xFF1A, 0x5982, 0x4E0B]]"
  by (simp add: read_lines_def doc_explanation_def)

lemma hits_explanation:
  "colonHits cfg_default doc_explanation = [(1, [0x8BF4, 0x660E, 0xFF1A, 0x5982, 0x4E0B])]"
  by (simp add: colonHits_def select_string_def lines_explanation cfg_default_def colon_def)

lemma not_shaped_explanation:
  "\<not> is_match quoteShape [0x8BF4, 0x660E, 0xFF1A, 0x5982, 0x4E0B]"
  by (simp add: quoteShape_def speechVerbs_def is_white_space_def)

lemma violations_explanation: "colonViolations cfg_default doc_explanation = []"
  by (simp add: colonViolations_def hits_explanation quoteOnlyPattern_def)

text \<open>
  Claim C4 on a line that has the verb U+8BF4 and a colon, but no quotation mark and no
  verb before the colon.  The line is listed among the colon lines and does not have the
  stated shape, so the claim makes it a violation; the script records none and reports no
  colon usage issue, because the bare verb is a branch of its pattern.
\<close>

theorem bare_verb_exempts_line:
  "ColonExceptionsQuoteOnly cfg_default \<and>
   colonHits cfg_default doc_explanation = [(1, [0x8BF4, 0x660E, 0xFF1A, 0x5982, 0x4E0B])] \<and>
   \<not> is_match quoteShape [0x8BF4, 0x660E, 0xFF1A, 0x5982, 0x4E0B] \<and>
   colonViolations cfg_default doc_explanation = [] \<and>
   msg_colon_usage \<notin> set (issues cfg_default doc_explanation)"
proof -
  have on: "ColonExceptionsQuoteOnly cfg_default"
    by (simp add: cfg_default_def)
  have "msg_colon_usage \<notin> set (issues cfg_default doc_explanation)"
    using usage_issue_iff[of cfg_default doc_explanation]
    by (simp add: violations_explanation)
  with on hits_explanation not_shaped_explanation violations_explanation show ?thesis
    by blast
qed

section \<open>Trimming\<close>

lemma white_breaks [simp]: "is_white_space LF" "is_white_space CR"
  by (simp_all add: is_white_space_def)

lemma trim_ends:
  assumes "trim s \<noteq> []"
  shows "\<not> is_white_space (hd (trim s))" and "\<not> is_white_space (last (trim s))"
proof -
  let ?d = "dropWhile is_white_space s"
  let ?e = "dropWhile is_white_space (rev ?d)"
  have e: "?e \<noteq> []"
    using assms by (simp add: trim_def)
  have d: "?d \<noteq> []"
  proof
    assume "?d = []"
    then have "?e = []" by (simp only: rev.simps dropWhile.simps)
    with e show False ..
  qed
  have "last (trim s) = hd ?e"
    using e by (simp only: trim_def last_rev)
  with e show "\<not> is_white_space (last (trim s))"
    by (simp only: hd_dropWhile not_False_eq_True)
  have "hd (trim s) = last ?e"
    using e by (simp only: trim_def hd_rev)
  also have "\<dots> = last (rev ?d)"
    using e by (metis last_appendR takeWhile_dropWhile_id)
  also have "\<dots> = hd ?d"
    using d by (simp only: last_rev)
  finally show "\<not> is_white_space (hd (trim s))"
    using d by (simp only: hd_dropWhile not_False_eq_True)
qed

lemma trim_id:
  assumes "s \<noteq> []" "\<not> is_white_space (hd s)" "\<not> is_white_space (last s)"
  shows "trim s = s"
proof -
  have "dropWhile is_white_space s = s"
    using assms by (simp add: dropWhile_eq_self_iff)
  moreover have "dropWhile is_white_space (rev s) = rev s"
    using assms by (simp add: dropWhile_eq_self_iff hd_rev)
  ultimately show ?thesis
    by (simp add: trim_def)
qed

lemma trim_all_white:
  assumes "list_all is_white_space s"
  shows "trim s = []"
proof -
  have "dropWhile is_white_space s = []"
    using assms by (simp add: list_all_iff)
  then show ?thesis
    by (simp only: trim_def rev.simps dropWhile.simps)
qed

lemma trim_white_prefix:
  assumes "list_all is_white_space x"
  shows "trim (x @ y) = trim y"
proof -
  have "dropWhile is_white_space (x @ y) = dropWhile is_white_space y"
    using assms by (simp add: list_all_iff)
  then show ?thesis
    by (simp only: trim_def)
qed

lemma trim_white_suffix:
  assumes "list_all is_white_space y"
  shows "trim (x @ y) = trim x"
proof (cases "list_all is_white_space x")
  case True
  with assms have "list_all is_white_space (x @ y)" by simp
  with True show ?thesis by (simp only: trim_all_white)
next
  case False
  then have "dropWhile is_white_space (x @ y) = dropWhile is_white_space x @ y"
    by (auto simp: list_all_iff)
  moreover have "dropWhile is_white_space (rev y @ rev (dropWhile is_white_space x)) =
      dropWhile is_white_space (rev (dropWhile is_white_space x))"
    using assms by (intro dropWhile_append2) (simp add: list_all_iff)
  ultimately show ?thesis
    by (simp only: trim_def rev_append)
qed

lemma trim_decomposition:
  "\<exists>w w'. t = w @ trim t @ w' \<and> list_all is_white_space w \<and> list_all is_white_space w'"
proof -
  let ?d = "dropWhile is_white_space t"
  let ?w = "takeWhile is_white_space t"
  let ?w' = "rev (takeWhile is_white_space (rev ?d))"
  have "rev (takeWhile is_white_space (rev ?d) @ dropWhile is_white_space (rev ?d)) = ?d"
    by (simp only: takeWhile_dropWhile_id rev_rev_ident)
  then have "trim t @ ?w' = ?d"
    by (simp only: rev_append trim_def)
  then have "t = ?w @ trim t @ ?w'"
    by (simp only: takeWhile_dropWhile_id)
  moreover have "list_all is_white_space ?w"
    by (auto simp: list_all_iff dest: set_takeWhileD)
  moreover have "list_all is_white_space ?w'"
    by (auto simp: list_all_iff dest: set_takeWhileD)
  ultimately show ?thesis by blast
qed

section \<open>Line breaks at the head of a text\<close>

lemma line_breaks_all_tokens: "\<forall>b\<in>set (line_breaks s). b = [LF] \<or> b = [CR, LF]"
proof (induction s rule: line_breaks.induct)
  case 1
  show ?case by simp
next
  case (2 c s)
  show ?case
  proof (cases "c = LF")
    case True
    with 2(1) show ?thesis by simp
  next
    case nlf: False
    show ?thesis
    proof (cases "c = CR")
      case False
      with nlf show ?thesis by simp
    next
      case True
      show ?thesis
      proof (cases s)
        case Nil
        with True show ?thesis by simp
      next
        case (Cons d s')
        show ?thesis
        proof (cases "d = LF")
          case False
          with True Cons show ?thesis by simp
        next
          case dlf: True
          from 2(2)[OF nlf True Cons dlf] True Cons dlf show ?thesis by simp
        qed
      qed
    qed
  qed
qed

lemma line_breaks_tokens: "b \<in> set (line_breaks s) \<Longrightarrow> b = [LF] \<or> b = [CR, LF]"
  using line_breaks_all_tokens by blast

lemma line_breaks_prefix: "prefix (concat (line_breaks s)) s"
  by (induction s rule: line_breaks.induct) (auto split: list.splits)

lemma line_breaks_length: "length (concat (line_breaks s)) \<le> length s"
  using line_breaks_prefix[of s] by (rule prefix_length_le)

lemma line_breaks_chars: "c \<in> set (concat (line_breaks s)) \<Longrightarrow> c = LF \<or> c = CR"
  using line_breaks_tokens by fastforce

lemma line_breaks_short:
  assumes "s \<noteq> []" "last s \<noteq> LF" "last s \<noteq> CR"
  shows "length (concat (line_breaks s)) < length s"
proof (rule ccontr)
  assume "\<not> length (concat (line_breaks s)) < length s"
  with line_breaks_length[of s] have "length (concat (line_breaks s)) = length s"
    by simp
  moreover obtain zs where zs: "s = concat (line_breaks s) @ zs"
    using line_breaks_prefix[of s] by (auto simp: prefix_def)
  ultimately have "length zs = 0"
    by (metis add_diff_cancel_left' diff_self_eq_0 length_append)
  with zs have "concat (line_breaks s) = s"
    by simp
  with assms(1) have "last s \<in> set (concat (line_breaks s))"
    by simp
  with line_breaks_chars assms(2,3) show False
    by blast
qed

lemma line_breaks_mono: "prefix (line_breaks s) (line_breaks (s @ u))"
  by (induction s rule: line_breaks.induct) (auto split: list.splits)

lemma line_breaks_seam: "clean_seam s u \<Longrightarrow> line_breaks (s @ u) = line_breaks s"
proof (induction s rule: line_breaks.induct)
  case 1
  then show ?case
    by (cases u) (auto simp: clean_seam_def)
next
  case (2 c s)
  show ?case
  proof (cases "c = LF")
    case True
    with 2(3) have "clean_seam s u"
      by (auto simp: clean_seam_def split: if_splits)
    with 2(1) True show ?thesis by simp
  next
    case nlf: False
    show ?thesis
    proof (cases "c = CR")
      case False
      with nlf show ?thesis by simp
    next
      case True
      show ?thesis
      proof (cases s)
        case Nil
        with True 2(3) show ?thesis
          by (cases u) (auto simp: clean_seam_def)
      next
        case (Cons d s')
        show ?thesis
        proof (cases "d = LF")
          case False
          with True Cons show ?thesis by simp
        next
          case dlf: True
          with 2(3) Cons have "clean_seam s' u"
            by (auto simp: clean_seam_def split: if_splits)
          with 2(2)[OF nlf True Cons dlf] True Cons dlf show ?thesis by simp
        qed
      qed
    qed
  qed
qed

section \<open>The separator at the head of a text\<close>

lemma sep_match_seam: "clean_seam s u \<Longrightarrow> sep_match (s @ u) = sep_match s"
  by (simp add: sep_match_def line_breaks_seam)

lemma sep_match_mono: "sep_match (s @ u) = None \<Longrightarrow> sep_match s = None"
  using prefix_length_le[OF line_breaks_mono[of s u]]
  by (auto simp: sep_match_def Let_def split: if_splits)

lemma sep_match_length: "sep_match s = Some (cap, n) \<Longrightarrow> n \<le> length s"
  using line_breaks_length[of s]
  by (auto simp: sep_match_def Let_def split: if_splits)

lemma sep_match_short:
  "sep_match s = Some (cap, n) \<Longrightarrow> last s \<noteq> LF \<Longrightarrow> last s \<noteq> CR \<Longrightarrow> n < length s"
  using line_breaks_short[of s]
  by (cases "s = []") (auto simp: sep_match_def Let_def split: if_splits)

lemma sep_match_capture: "sep_match s = Some (cap, n) \<Longrightarrow> cap = [LF] \<or> cap = [CR, LF]"
proof -
  assume m: "sep_match s = Some (cap, n)"
  then have "line_breaks s \<noteq> []" and "cap = last (line_breaks s)"
    by (auto simp: sep_match_def Let_def split: if_splits)
  then have "cap \<in> set (line_breaks s)"
    by simp
  then show ?thesis
    by (rule line_breaks_tokens)
qed

section \<open>Splitting at the separator\<close>

lemma concat_length_ge:
  fixes bs :: "ustring list"
  shows "\<forall>b\<in>set bs. b \<noteq> [] \<Longrightarrow> length bs \<le> length (concat bs)"
proof (induction bs)
  case Nil
  show ?case by simp
next
  case (Cons a bs)
  then show ?case by (cases a) auto
qed

lemma sep_match_two: "sep_match s = Some (cap, n) \<Longrightarrow> 2 \<le> n"
proof -
  assume "sep_match s = Some (cap, n)"
  then have two: "2 \<le> length (line_breaks s)" and n: "n = length (concat (line_breaks s))"
    by (auto simp: sep_match_def Let_def split: if_splits)
  have "\<forall>b\<in>set (line_breaks s). b \<noteq> []"
    using line_breaks_tokens by fastforce
  then have "length (line_breaks s) \<le> length (concat (line_breaks s))"
    by (rule concat_length_ge)
  with two n show ?thesis
    by simp
qed

lemma plain_split_nonempty [simp]: "plain_split s \<noteq> []"
  by (cases s) (auto split: option.splits list.splits)

lemma regex_split_nonempty [simp]: "regex_split s \<noteq> []"
  by (cases s) (auto split: option.splits list.splits)

lemma glue_Cons: "xs \<noteq> [] \<Longrightarrow> glue (x # xs) ys = x # glue xs ys"
  by (cases xs) simp_all

lemma glue_single: "ys \<noteq> [] \<Longrightarrow> glue [x] ys = (x @ hd ys) # tl ys"
  by (cases ys) simp_all

lemma plain_split_None:
  "sep_match (c # s) = None \<Longrightarrow>
   plain_split (c # s) = (c # hd (plain_split s)) # tl (plain_split s)"
  by (cases "plain_split s") simp_all

lemma plain_split_Some:
  "sep_match (c # s) = Some (cap, n) \<Longrightarrow> plain_split (c # s) = [] # plain_split (drop (n - 1) s)"
  by simp

declare plain_split.simps(2) [simp del]

lemma plain_split_seam:
  "clean_seam s u \<Longrightarrow> plain_split (s @ u) = glue (plain_split s) (plain_split u)"
proof (induction s rule: plain_split.induct)
  case 1
  show ?case
    by (cases "plain_split u") simp_all
next
  case (2 c s)
  have m: "sep_match (c # s @ u) = sep_match (c # s)"
    using sep_match_seam[OF "2.prems"] by simp
  show ?case
  proof (cases "sep_match (c # s)")
    case None
    with m have none: "sep_match (c # s @ u) = None"
      by simp
    show ?thesis
    proof (cases "s = []")
      case True
      with none have "plain_split ((c # s) @ u) = (c # hd (plain_split u)) # tl (plain_split u)"
        by (simp add: plain_split_None)
      with True None show ?thesis
        by (simp add: glue_single plain_split_None)
    next
      case False
      with "2.prems" have "clean_seam s u"
        by (auto simp: clean_seam_def)
      with "2.IH"(1) None have ih: "plain_split (s @ u) = glue (plain_split s) (plain_split u)"
        by simp
      obtain z zs where z: "plain_split s = z # zs"
        by (cases "plain_split s") simp_all
      have l: "plain_split ((c # s) @ u) =
          (c # hd (glue (z # zs) (plain_split u))) # tl (glue (z # zs) (plain_split u))"
        using none ih z by (simp add: plain_split_None)
      have r: "plain_split (c # s) = (c # z) # zs"
        using None z by (simp add: plain_split_None)
      show ?thesis
      proof (cases zs)
        case Nil
        with l r show ?thesis by (simp add: glue_single)
      next
        case (Cons a list)
        with l r show ?thesis by simp
      qed
    qed
  next
    case (Some x)
    obtain cap n where x: "x = (cap, n)"
      by (cases x)
    with Some have some: "sep_match (c # s) = Some (cap, n)"
      by simp
    have n: "n \<le> Suc (length s)"
      using sep_match_length[OF some] by simp
    then have dr: "drop (n - 1) (s @ u) = drop (n - 1) s @ u"
      by simp
    have "clean_seam (drop (n - 1) s) u"
    proof (cases "u \<noteq> [] \<and> hd u \<noteq> LF \<and> hd u \<noteq> CR")
      case True
      then show ?thesis by (simp add: clean_seam_def)
    next
      case False
      with "2.prems" have e: "last (c # s) \<noteq> LF" "last (c # s) \<noteq> CR"
        by (auto simp: clean_seam_def)
      with sep_match_short[OF some] have "n < Suc (length s)"
        by simp
      then have "drop (n - 1) s \<noteq> []"
        using sep_match_two[OF some] by simp
      moreover from this have "last (drop (n - 1) s) = last (c # s)"
        by (cases s) auto
      ultimately show ?thesis
        using e by (simp add: clean_seam_def)
    qed
    with "2.IH"(2)[OF Some x[symmetric]]
    have ih: "plain_split (drop (n - 1) s @ u) =
        glue (plain_split (drop (n - 1) s)) (plain_split u)"
      by simp
    have "sep_match (c # s @ u) = Some (cap, n)"
      using some m by simp
    then have "plain_split (c # s @ u) = [] # plain_split (drop (n - 1) (s @ u))"
      by (rule plain_split_Some)
    then have l: "plain_split ((c # s) @ u) = [] # plain_split (drop (n - 1) s @ u)"
      by (simp only: dr append_Cons)
    have r: "plain_split (c # s) = [] # plain_split (drop (n - 1) s)"
      using some by (rule plain_split_Some)
    show ?thesis
      unfolding l r ih by (simp add: glue_Cons)
  qed
qed

lemma regex_split_None:
  "sep_match (c # s) = None \<Longrightarrow>
   regex_split (c # s) = (c # hd (regex_split s)) # tl (regex_split s)"
  by (cases "regex_split s") simp_all

lemma regex_split_Some:
  "sep_match (c # s) = Some (cap, n) \<Longrightarrow>
   regex_split (c # s) = [] # cap # regex_split (drop (n - 1) s)"
  by simp

declare regex_split.simps(2) [simp del]

lemma drop_captures_Cons: "drop_captures (x # r) = x # drop_captures (tl r)"
  by (cases r) simp_all

lemma captures_are_breaks_Cons: "captures_are_breaks (x # r) = captures_are_breaks (y # r)"
  by (cases r) simp_all

lemma plain_split_drop_captures: "plain_split s = drop_captures (regex_split s)"
proof (induction s rule: regex_split.induct)
  case 1
  show ?case by simp
next
  case (2 c s)
  show ?case
  proof (cases "sep_match (c # s)")
    case None
    obtain x r where r: "regex_split s = x # r"
      by (cases "regex_split s") simp_all
    with "2.IH"(1) None have "plain_split s = x # drop_captures (tl r)"
      by (simp add: drop_captures_Cons)
    with None r show ?thesis
      by (simp add: plain_split_None regex_split_None drop_captures_Cons)
  next
    case (Some m)
    obtain cap n where m: "m = (cap, n)"
      by (cases m)
    with "2.IH"(2)[OF Some m[symmetric]] Some show ?thesis
      by (simp add: plain_split_Some regex_split_Some)
  qed
qed

lemma regex_split_captures: "captures_are_breaks (regex_split s)"
proof (induction s rule: regex_split.induct)
  case 1
  show ?case by simp
next
  case (2 c s)
  show ?case
  proof (cases "sep_match (c # s)")
    case None
    obtain x r where r: "regex_split s = x # r"
      by (cases "regex_split s") simp_all
    with "2.IH"(1) None have "captures_are_breaks ((c # x) # r)"
      using captures_are_breaks_Cons[of "c # x" r x] by simp
    with None r show ?thesis
      by (simp add: regex_split_None)
  next
    case (Some m)
    obtain cap n where m: "m = (cap, n)"
      by (cases m)
    with Some have some: "sep_match (c # s) = Some (cap, n)"
      by simp
    from "2.IH"(2)[OF Some m[symmetric]] sep_match_capture[OF some] some show ?thesis
      by (simp add: regex_split_Some)
  qed
qed

lemma only_breaks_white: "only_breaks p \<Longrightarrow> list_all is_white_space p"
  by (cases p) (auto simp: only_breaks_def list_all_iff split: if_splits)

lemma kept_iff: "0 < length (trim p) \<and> \<not> only_breaks p \<longleftrightarrow> trim p \<noteq> []"
  using only_breaks_white[of p] trim_all_white[of p] by auto

lemma filter_drop_captures:
  "captures_are_breaks xs \<Longrightarrow>
   filter (\<lambda>p. trim p \<noteq> []) xs = filter (\<lambda>p. trim p \<noteq> []) (drop_captures xs)"
proof (induction xs rule: drop_captures.induct)
  case (3 x c r)
  then have "trim c = []"
    by (auto simp: trim_all_white)
  with 3 show ?case by simp
qed simp_all

lemma paragraphs_plain: "paragraphs t = filter (\<lambda>p. trim p \<noteq> []) (plain_split (trim t))"
proof -
  have "(\<lambda>p. 0 < length (trim p) \<and> \<not> only_breaks p) = (\<lambda>p. trim p \<noteq> [])"
    using kept_iff by (intro ext)
  then have "paragraphs t = filter (\<lambda>p. trim p \<noteq> []) (regex_split (trim t))"
    by (simp only: paragraphs_def)
  also have "\<dots> = filter (\<lambda>p. trim p \<noteq> []) (drop_captures (regex_split (trim t)))"
    using regex_split_captures by (rule filter_drop_captures)
  finally show ?thesis
    by (simp only: plain_split_drop_captures)
qed

lemma plain_split_chars: "\<forall>p\<in>set (plain_split s). set p \<subseteq> set s"
proof (induction s rule: plain_split.induct)
  case 1
  show ?case by simp
next
  case (2 c s)
  show ?case
  proof (cases "sep_match (c # s)")
    case None
    obtain x r where r: "plain_split s = x # r"
      by (cases "plain_split s") simp_all
    with "2.IH"(1) None show ?thesis
      by (auto simp: plain_split_None)
  next
    case (Some m)
    obtain cap n where m: "m = (cap, n)"
      by (cases m)
    from "2.IH"(2)[OF Some m[symmetric]] set_drop_subset[of "n - 1" s] Some m show ?thesis
      by (auto simp: plain_split_Some)
  qed
qed

lemma plain_split_head_prefix: "prefix (hd (plain_split s)) s"
proof (induction s rule: plain_split.induct)
  case 1
  show ?case by simp
next
  case (2 c s)
  show ?case
  proof (cases "sep_match (c # s)")
    case None
    with "2.IH"(1) show ?thesis
      by (simp add: plain_split_None)
  next
    case (Some m)
    obtain cap n where m: "m = (cap, n)"
      by (cases m)
    with Some show ?thesis
      by (simp add: plain_split_Some)
  qed
qed

section \<open>Texts without a separator\<close>

lemma sep_free_Nil [simp]: "sep_free []"
  by (simp add: sep_free_def sep_match_def)

lemma sep_free_suffix: "sep_free s \<Longrightarrow> suffix q s \<Longrightarrow> sep_free q"
  unfolding sep_free_def by (meson suffix_order.trans)

lemma sep_free_prefix:
  assumes "sep_free (x @ y)"
  shows "sep_free x"
  unfolding sep_free_def
proof (intro allI impI)
  fix q
  assume "suffix q x"
  then have "suffix (q @ y) (x @ y)"
    by (auto simp: suffix_def)
  with assms have "sep_match (q @ y) = None"
    by (simp add: sep_free_def)
  then show "sep_match q = None"
    by (rule sep_match_mono)
qed

lemma sep_free_trim:
  assumes "sep_free c"
  shows "sep_free (trim c)"
proof -
  obtain w w' where "c = w @ trim c @ w'"
    using trim_decomposition[of c] by blast
  then have "suffix (trim c @ w') c"
    by (metis suffixI)
  with assms have "sep_free (trim c @ w')"
    by (rule sep_free_suffix)
  then show ?thesis
    by (rule sep_free_prefix)
qed

lemma plain_split_sep_free: "\<forall>p\<in>set (plain_split s). sep_free p"
proof (induction s rule: plain_split.induct)
  case 1
  show ?case by simp
next
  case (2 c s)
  show ?case
  proof (cases "sep_match (c # s)")
    case None
    obtain x r where r: "plain_split s = x # r"
      by (cases "plain_split s") simp_all
    with "2.IH"(1) None have x: "sep_free x" and rest: "\<forall>p\<in>set r. sep_free p"
      by simp_all
    obtain z where "s = x @ z"
      using plain_split_head_prefix[of s] r by (auto simp: prefix_def)
    then have "sep_match ((c # x) @ z) = None"
      using None by simp
    then have "sep_match (c # x) = None"
      by (rule sep_match_mono)
    with x have "sep_free (c # x)"
      by (auto simp: sep_free_def suffix_Cons)
    with rest None r show ?thesis
      by (simp add: plain_split_None)
  next
    case (Some m)
    obtain cap n where m: "m = (cap, n)"
      by (cases m)
    from "2.IH"(2)[OF Some m[symmetric]] Some m show ?thesis
      by (simp add: plain_split_Some)
  qed
qed

lemma plain_split_of_sep_free: "sep_free p \<Longrightarrow> plain_split p = [p]"
proof (induction p)
  case Nil
  show ?case by simp
next
  case (Cons c p)
  then have "sep_match (c # p) = None" and "sep_free p"
    by (auto simp: sep_free_def suffix_Cons)
  with Cons.IH show ?case
    by (simp add: plain_split_None)
qed

section \<open>White space around the text\<close>

lemma white_not_break: "\<not> is_white_space c \<Longrightarrow> c \<noteq> LF \<and> c \<noteq> CR"
  by auto

lemma trim_Nil [simp]: "trim [] = []"
  by (simp add: trim_def)

lemma plain_split_white:
  assumes "list_all is_white_space s" and "p \<in> set (plain_split s)"
  shows "list_all is_white_space p"
  using assms plain_split_chars[of s] by (auto simp: list_all_iff)

lemma trimmed_glue_white_left:
  assumes "\<forall>a\<in>set A. list_all is_white_space a" and "B \<noteq> []"
  shows "filter (\<lambda>p. p \<noteq> []) (map trim (glue A B)) = filter (\<lambda>p. p \<noteq> []) (map trim B)"
  using assms
proof (induction A B rule: glue.induct)
  case (3 x y ys)
  then show ?case by (simp add: trim_white_prefix)
next
  case (4 x x' xs ys)
  then show ?case by (simp add: trim_all_white)
qed simp_all

lemma trimmed_glue_white_right:
  assumes "\<forall>b\<in>set B. list_all is_white_space b" and "A \<noteq> []"
  shows "filter (\<lambda>p. p \<noteq> []) (map trim (glue A B)) = filter (\<lambda>p. p \<noteq> []) (map trim A)"
  using assms
proof (induction A B rule: glue.induct)
  case (3 x y ys)
  then have "filter (\<lambda>p. p \<noteq> []) (map trim ys) = []"
    by (auto simp: filter_empty_conv trim_all_white)
  with 3 show ?case by (simp add: trim_white_suffix)
qed simp_all

lemma trimmed_split_white:
  assumes "list_all is_white_space s"
  shows "filter (\<lambda>p. p \<noteq> []) (map trim (plain_split s)) = []"
  using plain_split_white[OF assms] by (auto simp: filter_empty_conv trim_all_white)

lemma trim_irrelevant:
  "filter (\<lambda>p. p \<noteq> []) (map trim (plain_split (trim t))) =
   filter (\<lambda>p. p \<noteq> []) (map trim (plain_split t))"
proof -
  obtain w w' where t: "t = w @ trim t @ w'"
    and w: "list_all is_white_space w" and w': "list_all is_white_space w'"
    using trim_decomposition[of t] by blast
  show ?thesis
  proof (cases "trim t = []")
    case True
    with t w w' have "list_all is_white_space t"
      by (metis append_Nil list_all_append)
    then have "filter (\<lambda>p. p \<noteq> []) (map trim (plain_split t)) = []"
      by (rule trimmed_split_white)
    with True show ?thesis by simp
  next
    case False
    let ?b = "trim t"
    from False have ends: "\<not> is_white_space (hd ?b)" "\<not> is_white_space (last ?b)"
      by (rule trim_ends)+
    have "clean_seam w (?b @ w')"
      using False ends(1) white_not_break[of "hd ?b"] by (simp add: clean_seam_def)
    then have 1: "plain_split (w @ ?b @ w') = glue (plain_split w) (plain_split (?b @ w'))"
      by (rule plain_split_seam)
    have "clean_seam ?b w'"
      using False ends(2) white_not_break[of "last ?b"] by (simp add: clean_seam_def)
    then have 2: "plain_split (?b @ w') = glue (plain_split ?b) (plain_split w')"
      by (rule plain_split_seam)
    have "filter (\<lambda>p. p \<noteq> []) (map trim (plain_split (w @ ?b @ w'))) =
        filter (\<lambda>p. p \<noteq> []) (map trim (plain_split (?b @ w')))"
      unfolding 1 using plain_split_white[OF w]
      by (intro trimmed_glue_white_left) simp_all
    also have "\<dots> = filter (\<lambda>p. p \<noteq> []) (map trim (plain_split ?b))"
      unfolding 2 using plain_split_white[OF w']
      by (intro trimmed_glue_white_right) simp_all
    finally show ?thesis
      using t by simp
  qed
qed

lemma trimmed_paragraphs: "map trim (paragraphs t) = spec_paragraphs t"
proof -
  have "map trim (paragraphs t) =
      filter (\<lambda>p. p \<noteq> []) (map trim (plain_split (trim t)))"
    by (simp add: paragraphs_plain filter_map comp_def)
  then show ?thesis
    by (simp only: trim_irrelevant spec_paragraphs_def)
qed

lemma paragraphs_not_empty: "p \<in> set (paragraphs t) \<Longrightarrow> trim p \<noteq> []"
  by (simp add: paragraphs_plain)

lemma shortParagraphCount_spec:
  "shortParagraphCount t = length (filter (\<lambda>p. length p < 100) (spec_paragraphs t))"
proof -
  have "shortParagraphs t = filter (\<lambda>p. length (trim p) < 100) (paragraphs t)"
    unfolding shortParagraphs_def
    by (rule filter_cong) (auto dest: paragraphs_not_empty)
  then have "shortParagraphCount t =
      length (filter (\<lambda>p. length p < 100) (map trim (paragraphs t)))"
    by (simp add: shortParagraphCount_def filter_map comp_def)
  then show ?thesis
    by (simp only: trimmed_paragraphs)
qed

text \<open>
  Claim C6.  The paragraphs of the script, trimmed, are the paragraphs as the
  specification words them: the pieces of the text between the runs of two or more line
  breaks (LF, with or without a CR before it), each trimmed, without those that are empty
  after trimming.  No paragraph is empty after trimming, and the count of short paragraphs
  is the number of these paragraphs of fewer than 100 characters.
\<close>

theorem paragraphs_refine_spec:
  "map trim (paragraphs t) = spec_paragraphs t \<and>
   (\<forall>p\<in>set (paragraphs t). trim p \<noteq> []) \<and>
   [] \<notin> set (spec_paragraphs t) \<and>
   shortParagraphCount t = length (filter (\<lambda>p. length p < 100) (spec_paragraphs t))"
  using trimmed_paragraphs[of t] paragraphs_not_empty[of _ t] shortParagraphCount_spec[of t]
  by (auto simp: spec_paragraphs_def)

lemma paragraphs_padded: "paragraphs doc_padded = [[0x7532, 0x20], [0x20, 0x4E59]]"
  by (simp add: para_eval regex_split.simps doc_padded_def)

theorem paragraphs_refine_spec_witness:
  "spec_paragraphs doc_padded = [[0x7532], [0x4E59]] \<and>
   [0x7532, 0x20] \<in> set (paragraphs doc_padded) \<and> trim [0x7532, 0x20] \<noteq> [] \<and>
   shortParagraphCount doc_padded = 2"
proof -
  have m: "map trim (paragraphs doc_padded) = [[0x7532], [0x4E59]]"
    by (simp add: paragraphs_padded trim_def is_white_space_def)
  from paragraphs_refine_spec[of doc_padded]
  have e: "map trim (paragraphs doc_padded) = spec_paragraphs doc_padded"
    and a: "\<forall>p\<in>set (paragraphs doc_padded). trim p \<noteq> []"
    and c: "shortParagraphCount doc_padded =
      length (filter (\<lambda>p. length p < 100) (spec_paragraphs doc_padded))"
    by blast+
  from e m have sp: "spec_paragraphs doc_padded = [[0x7532], [0x4E59]]"
    by simp
  with c have "shortParagraphCount doc_padded = 2"
    by simp
  moreover have "[0x7532, 0x20] \<in> set (paragraphs doc_padded)"
    by (simp add: paragraphs_padded)
  ultimately show ?thesis
    using sp a by blast
qed

section \<open>Joining paragraphs\<close>

lemma plain_split_break:
  "plain_split [LF, LF] = [[], []]" "plain_split [CR, LF, CR, LF] = [[], []]"
  by (simp_all add: plain_split.simps(2) sep_match_def)

lemma join_with_nonempty: "ps \<noteq> [] \<Longrightarrow> hd ps \<noteq> [] \<Longrightarrow> join_with br ps \<noteq> []"
  by (induction br ps rule: join_with.induct) simp_all

lemma hd_join_with: "ps \<noteq> [] \<Longrightarrow> hd ps \<noteq> [] \<Longrightarrow> hd (join_with br ps) = hd (hd ps)"
  by (induction br ps rule: join_with.induct) simp_all

lemma last_join_with:
  "ps \<noteq> [] \<Longrightarrow> \<forall>p\<in>set ps. p \<noteq> [] \<Longrightarrow> last (join_with br ps) = last (last ps)"
proof (induction br ps rule: join_with.induct)
  case (3 br p q ps)
  then have "join_with br (q # ps) \<noteq> []"
    by (intro join_with_nonempty) simp_all
  with 3 show ?case by simp
qed simp_all

lemma plain_split_join:
  assumes br: "plain_split br = [[], []]"
  shows "ps \<noteq> [] \<Longrightarrow>
    \<forall>p\<in>set ps. p \<noteq> [] \<and> \<not> is_white_space (hd p) \<and> \<not> is_white_space (last p) \<and> sep_free p \<Longrightarrow>
    plain_split (join_with br ps) = ps"
proof (induction ps rule: induct_list012)
  case 1
  then show ?case by simp
next
  case (2 p)
  then show ?case by (simp add: plain_split_of_sep_free)
next
  case (3 p q ps)
  let ?rest = "join_with br (q # ps)"
  have p: "p \<noteq> []" "\<not> is_white_space (last p)" "sep_free p"
    and q: "q \<noteq> []" "\<not> is_white_space (hd q)"
    using "3.prems" by simp_all
  have rest: "?rest \<noteq> []" "hd ?rest = hd q"
    using q by (simp_all add: join_with_nonempty hd_join_with)
  have ih: "plain_split ?rest = q # ps"
    using 3 by simp
  have "clean_seam p br"
    using p white_not_break[of "last p"] by (simp add: clean_seam_def)
  then have "plain_split (p @ br) = glue (plain_split p) (plain_split br)"
    by (rule plain_split_seam)
  then have left: "plain_split (p @ br) = [p, []]"
    using p(3) br by (simp add: plain_split_of_sep_free)
  have "clean_seam (p @ br) ?rest"
    using rest q white_not_break[of "hd q"] by (simp add: clean_seam_def)
  then have "plain_split ((p @ br) @ ?rest) = glue (plain_split (p @ br)) (plain_split ?rest)"
    by (rule plain_split_seam)
  then show ?case
    using left ih by simp
qed

lemma trimmed_paragraph_good:
  assumes "p \<in> set (paragraphs t)"
  shows "trim p \<noteq> [] \<and> \<not> is_white_space (hd (trim p)) \<and> \<not> is_white_space (last (trim p)) \<and>
    sep_free (trim p)"
proof -
  from assms have ne: "trim p \<noteq> []" and "p \<in> set (plain_split (trim t))"
    by (simp_all add: paragraphs_plain)
  then have "sep_free p"
    using plain_split_sep_free by blast
  then have "sep_free (trim p)"
    by (rule sep_free_trim)
  with ne trim_ends[OF ne] show ?thesis
    by simp
qed

lemma filter_trimmed_good:
  "\<forall>p\<in>set ps. p \<noteq> [] \<and> \<not> is_white_space (hd p) \<and> \<not> is_white_space (last p) \<and> sep_free p \<Longrightarrow>
   filter (\<lambda>p. trim p \<noteq> []) ps = ps"
  by (induction ps) (auto simp: trim_id)

lemma paragraphs_of_join:
  assumes br: "plain_split br = [[], []]"
  shows "paragraphs (join_with br (map trim (paragraphs t))) = map trim (paragraphs t)"
proof (cases "paragraphs t = []")
  case True
  then show ?thesis
    by (simp add: paragraphs_plain)
next
  case False
  let ?ps = "map trim (paragraphs t)"
  have good: "\<forall>p\<in>set ?ps. p \<noteq> [] \<and> \<not> is_white_space (hd p) \<and> \<not> is_white_space (last p) \<and>
      sep_free p"
    using trimmed_paragraph_good[of _ t] by auto
  have ne: "?ps \<noteq> []"
    using False by simp
  have j: "join_with br ?ps \<noteq> []"
    using ne good by (intro join_with_nonempty) (simp_all add: hd_map)
  have hd_eq: "hd (join_with br ?ps) = hd (hd ?ps)"
    using ne good by (intro hd_join_with) (simp_all add: hd_map)
  have last_eq: "last (join_with br ?ps) = last (last ?ps)"
    using ne good by (intro last_join_with) simp_all
  have mem: "hd ?ps \<in> set ?ps" "last ?ps \<in> set ?ps"
    using ne hd_in_set[of ?ps] last_in_set[of ?ps] by blast+
  have "\<not> is_white_space (hd (hd ?ps))" "\<not> is_white_space (last (last ?ps))"
    using good mem by blast+
  then have "\<not> is_white_space (hd (join_with br ?ps))"
    and "\<not> is_white_space (last (join_with br ?ps))"
    by (simp_all only: hd_eq last_eq not_False_eq_True)
  with j have "trim (join_with br ?ps) = join_with br ?ps"
    by (rule trim_id)
  then have "paragraphs (join_with br ?ps) = filter (\<lambda>p. trim p \<noteq> []) ?ps"
    using plain_split_join[OF br ne good] by (simp add: paragraphs_plain)
  also have "\<dots> = ?ps"
    using good by (rule filter_trimmed_good)
  finally show ?thesis .
qed

text \<open>
  Claim C8.  When the trimmed paragraphs of a text are joined by a double line break
  (LF LF, or CR LF CR LF) and the result is segmented again, the paragraphs found are the
  trimmed paragraphs themselves; in particular their number is the same.
\<close>

theorem resegmentation_idempotent:
  assumes "br = [LF, LF] \<or> br = [CR, LF, CR, LF]"
  shows "paragraphs (join_with br (map trim (paragraphs t))) = map trim (paragraphs t) \<and>
    paragraphCount (join_with br (map trim (paragraphs t))) = paragraphCount t"
proof -
  from assms have "plain_split br = [[], []]"
    by (auto simp: plain_split_break)
  then have "paragraphs (join_with br (map trim (paragraphs t))) = map trim (paragraphs t)"
    by (rule paragraphs_of_join)
  then show ?thesis
    by (simp add: paragraphCount_def)
qed

theorem resegmentation_idempotent_witness:
  "join_with [LF, LF] (map trim (paragraphs doc_padded)) = [0x7532, LF, LF, 0x4E59] \<and>
   paragraphCount doc_padded = 2 \<and>
   paragraphCount [0x7532, LF, LF, 0x4E59] = 2"
proof -
  have j: "join_with [LF, LF] (map trim (paragraphs doc_padded)) = [0x7532, LF, LF, 0x4E59]"
    by (simp add: paragraphs_padded trim_def is_white_space_def)
  have n: "paragraphCount doc_padded = 2"
    by (simp add: paragraphCount_def paragraphs_padded)
  from resegmentation_idempotent[of "[LF, LF]" doc_padded] j n show ?thesis
    by simp
qed

end
